theory Spec2Isabelle
  imports Main
begin

section \<open>The surveyor: a round-based exploration scheduler\<close>

text \<open>
  A shallow embedding of \<^verbatim>\<open>surveyor.py\<close>. The Python class mutates its own fields and
  calls into collaborators that live outside the file (the \<^verbatim>\<open>Path\<close> class, the project,
  the debugger). The embedding makes this explicit:

  \<^item> a path is a handle of type \<open>'p\<close> (the Python object reference held in the lists);
    everything behind the handles, and everything else outside the surveyor, is the
    world, threaded through every call;
  \<^item> the two module globals \<^verbatim>\<open>STOP_RUNS\<close> and \<^verbatim>\<open>PAUSE_RUNS\<close> are fields of the world, so
    that code running during a hook (or a signal handler interrupting it) can set them;
  \<^item> a call either returns a value or raises a fault of type \<open>'x\<close>; in both cases it
    leaves a state behind: \<open>(Inr v, st)\<close> is a normal return, \<open>(Inl x, st)\<close> is the fault
    \<open>x\<close> raised in state \<open>st\<close>;
  \<^item> the overridable methods \<^verbatim>\<open>tick_path\<close>, \<^verbatim>\<open>trim_path\<close>, \<^verbatim>\<open>trim_paths\<close> and \<^verbatim>\<open>done\<close> are
    the fields of a method table, and \<open>Surveyor_methods\<close> is the table of the base class.
\<close>

subsection \<open>Module globals and the control plane\<close>

record 'w world =
  STOP_RUNS :: bool
  PAUSE_RUNS :: bool
  heap :: 'w

definition enable_singlestep :: "'w world \<Rightarrow> 'w world" where
  "enable_singlestep g = g\<lparr>PAUSE_RUNS := True\<rparr>"

definition disable_singlestep :: "'w world \<Rightarrow> 'w world" where
  "disable_singlestep g = g\<lparr>PAUSE_RUNS := False\<rparr>"

definition stop_analyses :: "'w world \<Rightarrow> 'w world" where
  "stop_analyses g = g\<lparr>STOP_RUNS := True\<rparr>"

definition result_analyses :: "'w world \<Rightarrow> 'w world" where
  "result_analyses g = g\<lparr>STOP_RUNS := False\<rparr>"

datatype signum = SIGUSR1 | SIGUSR2 | SIGOTHER

fun handler :: "signum \<Rightarrow> 'w world \<Rightarrow> 'w world" where
  "handler SIGUSR1 g = stop_analyses g"
| "handler SIGUSR2 g = enable_singlestep g"
| "handler SIGOTHER g = g"

subsection \<open>Python slices\<close>

text \<open>
  \<^verbatim>\<open>xs[i:]\<close> and \<^verbatim>\<open>xs[:i]\<close> for an unbounded Python integer \<open>i\<close>: a negative index counts
  from the end of the list and is clamped at the front.
\<close>

definition slice_from :: "'a list \<Rightarrow> int \<Rightarrow> 'a list" where
  "slice_from xs i = (if i < 0 then drop (nat (int (length xs) + i)) xs else drop (nat i) xs)"

definition slice_upto :: "'a list \<Rightarrow> int \<Rightarrow> 'a list" where
  "slice_upto xs i = (if i < 0 then take (nat (int (length xs) + i)) xs else take (nat i) xs)"

subsection \<open>The scheduler state, its collaborators and its method table\<close>

record ('p, 'j) surveyor =
  project :: 'j
  max_concurrency :: int
  active :: "'p list"
  deadended :: "'p list"
  trimmed :: "'p list"
  errored :: "'p list"
  current_tick :: int

type_synonym ('p, 'j, 'w) state = "('p, 'j) surveyor \<times> 'w world"

text \<open>
  What the file imports or receives: the constructor \<^verbatim>\<open>Path(project=..., entry=...)\<close>,
  \<^verbatim>\<open>project.initial_exit()\<close>, \<^verbatim>\<open>p.continue_path()\<close>, the attribute \<^verbatim>\<open>p.errored\<close> and
  \<^verbatim>\<open>pdb.set_trace()\<close>. They are parameters of the model. The debugger is given the
  surveyor to look at and the world to act on.
\<close>

record ('j, 'u, 'p, 'e, 'x, 'w) collaborators =
  Path :: "'j \<Rightarrow> 'u \<Rightarrow> 'w world \<Rightarrow> ('x + 'p) \<times> 'w world"
  initial_exit :: "'j \<Rightarrow> 'w world \<Rightarrow> ('x + 'u) \<times> 'w world"
  continue_path :: "'p \<Rightarrow> 'w world \<Rightarrow> ('x + 'p list) \<times> 'w world"
  path_errored :: "'p \<Rightarrow> 'w world \<Rightarrow> 'e list"
  set_trace :: "('p, 'j) surveyor \<Rightarrow> 'w world \<Rightarrow> ('x + unit) \<times> 'w world"

text \<open>
  The overridable methods. \<^verbatim>\<open>tick_path\<close> and \<^verbatim>\<open>trim_path\<close> are given a path and act on the
  world; \<^verbatim>\<open>trim_paths\<close> is given a sequence of paths and may update the surveyor (the base
  class extends \<^verbatim>\<open>self.trimmed\<close>); \<^verbatim>\<open>done\<close> is a property that reads the surveyor.
\<close>

record ('p, 'j, 'x, 'w) methods =
  tick_path :: "'p \<Rightarrow> 'w world \<Rightarrow> ('x + 'p list) \<times> 'w world"
  trim_path :: "'p \<Rightarrow> 'w world \<Rightarrow> ('x + bool) \<times> 'w world"
  trim_paths :: "'p list \<Rightarrow> ('p, 'j, 'w) state \<Rightarrow> ('x + 'p list) \<times> ('p, 'j, 'w) state"
  is_done :: "('p, 'j) surveyor \<Rightarrow> 'w world \<Rightarrow> ('x + bool) \<times> 'w world"

subsection \<open>Construction\<close>

definition analyze_exit ::
  "('j, 'u, 'p, 'e, 'x, 'w) collaborators \<Rightarrow> 'u \<Rightarrow> ('p, 'j, 'w) state
     \<Rightarrow> ('x + unit) \<times> ('p, 'j, 'w) state" where
  "analyze_exit c e st =
     (case st of (s, w) \<Rightarrow>
        (case Path c (project s) e w of
           (Inl x, w') \<Rightarrow> (Inl x, (s, w'))
         | (Inr p, w') \<Rightarrow> (Inr (), (s\<lparr>active := active s @ [p]\<rparr>, w'))))"

text \<open>The loop \<^verbatim>\<open>for e in starts: self.analyze_exit(e)\<close>.\<close>

fun analyze_exits ::
  "('j, 'u, 'p, 'e, 'x, 'w) collaborators \<Rightarrow> 'u list \<Rightarrow> ('p, 'j, 'w) state
     \<Rightarrow> ('x + unit) \<times> ('p, 'j, 'w) state" where
  "analyze_exits c [] st = (Inr (), st)"
| "analyze_exits c (e # es) st =
     (case analyze_exit c e st of
        (Inl x, st') \<Rightarrow> (Inl x, st')
      | (Inr _, st') \<Rightarrow> analyze_exits c es st')"

text \<open>
  \<^verbatim>\<open>Surveyor.__init__\<close>. A fault during construction leaves no surveyor behind, only the
  world.
\<close>

definition Surveyor_init ::
  "('j, 'u, 'p, 'e, 'x, 'w) collaborators \<Rightarrow> 'j \<Rightarrow> 'u option \<Rightarrow> 'u list option \<Rightarrow> int option
     \<Rightarrow> 'w world \<Rightarrow> ('x + ('p, 'j) surveyor) \<times> 'w world" where
  "Surveyor_init c proj start starts max_conc w =
     (let s0 = \<lparr>project = proj,
                max_concurrency = (case max_conc of None \<Rightarrow> 10 | Some k \<Rightarrow> k),
                active = [], deadended = [], trimmed = [], errored = [],
                current_tick = 0\<rparr>
      in case (case start of None \<Rightarrow> (Inr (), (s0, w))
                           | Some e \<Rightarrow> analyze_exit c e (s0, w)) of
           (Inl x, (s1, w1)) \<Rightarrow> (Inl x, w1)
         | (Inr _, st1) \<Rightarrow>
             (case (case starts of None \<Rightarrow> (Inr (), st1)
                                 | Some es \<Rightarrow> analyze_exits c es st1) of
                (Inl x, (s2, w2)) \<Rightarrow> (Inl x, w2)
              | (Inr _, (s2, w2)) \<Rightarrow>
                  if start = None \<and> starts = None then
                    (case initial_exit c proj w2 of
                       (Inl x, w3) \<Rightarrow> (Inl x, w3)
                     | (Inr e, w3) \<Rightarrow>
                         (case analyze_exit c e (s2, w3) of
                            (Inl x, (s4, w4)) \<Rightarrow> (Inl x, w4)
                          | (Inr _, (s4, w4)) \<Rightarrow> (Inr s4, w4)))
                  else (Inr s2, w2)))"

text \<open>
  A reading of the seeding, used to state what the constructor does: one call of the
  constructor \<^verbatim>\<open>Path\<close> for each start unit, in order, each in the world the previous one
  left, up to the first fault.
\<close>

fun seed_paths ::
  "('j, 'u, 'p, 'e, 'x, 'w) collaborators \<Rightarrow> 'j \<Rightarrow> 'u list \<Rightarrow> 'w world
     \<Rightarrow> ('x + 'p list) \<times> 'w world" where
  "seed_paths c proj [] w = (Inr [], w)"
| "seed_paths c proj (e # es) w =
     (case Path c proj e w of
        (Inl x, w') \<Rightarrow> (Inl x, w')
      | (Inr p, w') \<Rightarrow>
          (case seed_paths c proj es w' of
             (Inl x, w'') \<Rightarrow> (Inl x, w'')
           | (Inr ps, w'') \<Rightarrow> (Inr (p # ps), w'')))"

subsection \<open>tick\<close>

definition Surveyor_tick_path ::
  "('j, 'u, 'p, 'e, 'x, 'w) collaborators \<Rightarrow> 'p \<Rightarrow> 'w world \<Rightarrow> ('x + 'p list) \<times> 'w world" where
  "Surveyor_tick_path c p w = continue_path c p w"

text \<open>
  The body of \<^verbatim>\<open>for p in self.active\<close>, with the local \<^verbatim>\<open>new_active\<close> as an accumulator.
  \<^verbatim>\<open>p.errored\<close> is read after the step, in the world the step left.
\<close>

fun tick_loop ::
  "('p, 'j, 'x, 'w) methods \<Rightarrow> ('j, 'u, 'p, 'e, 'x, 'w) collaborators \<Rightarrow> 'p list \<Rightarrow> 'p list
     \<Rightarrow> ('p, 'j, 'w) state \<Rightarrow> ('x + 'p list) \<times> ('p, 'j, 'w) state" where
  "tick_loop m c [] new_active st = (Inr new_active, st)"
| "tick_loop m c (p # ps) new_active st =
     (case st of (s, w) \<Rightarrow>
        (case tick_path m p w of
           (Inl x, w') \<Rightarrow> (Inl x, (s, w'))
         | (Inr successors, w') \<Rightarrow>
             (let s1 = (if length (path_errored c p w') > 0
                        then s\<lparr>errored := errored s @ [p]\<rparr> else s);
                  s2 = (if length successors = 0
                        then s1\<lparr>deadended := deadended s1 @ [p]\<rparr> else s1)
              in tick_loop m c ps (new_active @ successors) (s2, w'))))"

text \<open>\<^verbatim>\<open>tick\<close> returns \<^verbatim>\<open>self\<close>: the value returned is the surveyor of the state it leaves.\<close>

definition tick ::
  "('p, 'j, 'x, 'w) methods \<Rightarrow> ('j, 'u, 'p, 'e, 'x, 'w) collaborators \<Rightarrow> ('p, 'j, 'w) state
     \<Rightarrow> ('x + ('p, 'j) surveyor) \<times> ('p, 'j, 'w) state" where
  "tick m c st =
     (case tick_loop m c (active (fst st)) [] st of
        (Inl x, st') \<Rightarrow> (Inl x, st')
      | (Inr new_active, (s', w')) \<Rightarrow>
          (let s'' = s'\<lparr>active := new_active, current_tick := current_tick s' + 1\<rparr>
           in (Inr s'', (s'', w'))))"

text \<open>
  A reading of one pass of the loop, used to state what \<^verbatim>\<open>tick\<close> does: the paths stepped in
  order from a world, each with the successors its step returned and with its error records
  as they are after that step. The list ends at the first step that raises a fault.
\<close>

fun step_outcomes ::
  "('p, 'j, 'x, 'w) methods \<Rightarrow> ('j, 'u, 'p, 'e, 'x, 'w) collaborators \<Rightarrow> 'p list \<Rightarrow> 'w world
     \<Rightarrow> ('p \<times> 'p list \<times> 'e list) list" where
  "step_outcomes m c [] w = []"
| "step_outcomes m c (p # ps) w =
     (case tick_path m p w of
        (Inl x, w') \<Rightarrow> []
      | (Inr successors, w') \<Rightarrow>
          (p, successors, path_errored c p w') # step_outcomes m c ps w')"

subsection \<open>trim and untrim\<close>

definition Surveyor_trim_path :: "'p \<Rightarrow> 'w world \<Rightarrow> ('x + bool) \<times> 'w world" where
  "Surveyor_trim_path p w = (Inr False, w)"

definition Surveyor_trim_paths ::
  "'p list \<Rightarrow> ('p, 'j, 'w) state \<Rightarrow> ('x + 'p list) \<times> ('p, 'j, 'w) state" where
  "Surveyor_trim_paths paths st =
     (case st of (s, w) \<Rightarrow>
        (Inr (slice_upto paths (max_concurrency s)),
         (s\<lparr>trimmed := trimmed s @ slice_from paths (max_concurrency s)\<rparr>, w)))"

text \<open>The comprehension \<^verbatim>\<open>[ p for p in self.active if not self.trim_path(p) ]\<close>.\<close>

fun trim_filter ::
  "('p, 'j, 'x, 'w) methods \<Rightarrow> 'p list \<Rightarrow> 'w world \<Rightarrow> ('x + 'p list) \<times> 'w world" where
  "trim_filter m [] w = (Inr [], w)"
| "trim_filter m (p # ps) w =
     (case trim_path m p w of
        (Inl x, w') \<Rightarrow> (Inl x, w')
      | (Inr b, w') \<Rightarrow>
          (case trim_filter m ps w' of
             (Inl x, w'') \<Rightarrow> (Inl x, w'')
           | (Inr kept, w'') \<Rightarrow> (Inr (if \<not> b then p # kept else kept), w'')))"

definition trim ::
  "('p, 'j, 'x, 'w) methods \<Rightarrow> ('p, 'j, 'w) state \<Rightarrow> ('x + unit) \<times> ('p, 'j, 'w) state" where
  "trim m st =
     (case st of (s, w) \<Rightarrow>
        (case trim_filter m (active s) w of
           (Inl x, w') \<Rightarrow> (Inl x, (s, w'))
         | (Inr new_active, w') \<Rightarrow>
             (case trim_paths m new_active (s, w') of
                (Inl x, st') \<Rightarrow> (Inl x, st')
              | (Inr new_active', (s', w'')) \<Rightarrow> (Inr (), (s'\<lparr>active := new_active'\<rparr>, w'')))))"

text \<open>
  In \<^verbatim>\<open>untrim\<close> the slices are taken only when \<^verbatim>\<open>available > 0\<close>; \<open>slice_upto\<close> and
  \<open>slice_from\<close> are \<open>take\<close> and \<open>drop\<close> there.
\<close>

definition untrim :: "('p, 'j) surveyor \<Rightarrow> ('p, 'j) surveyor" where
  "untrim s =
     (let available = max_concurrency s - int (length (active s))
      in if available > 0 \<and> length (trimmed s) > 0
         then s\<lparr>active := active s @ slice_upto (trimmed s) available,
                trimmed := slice_from (trimmed s) available\<rparr>
         else s)"

subsection \<open>run and done\<close>

definition Surveyor_done :: "('p, 'j) surveyor \<Rightarrow> 'w world \<Rightarrow> ('x + bool) \<times> 'w world" where
  "Surveyor_done s w = (Inr (length (active s) = 0), w)"

definition Surveyor_methods ::
  "('j, 'u, 'p, 'e, 'x, 'w) collaborators \<Rightarrow> ('p, 'j, 'x, 'w) methods" where
  "Surveyor_methods c =
     \<lparr>tick_path = Surveyor_tick_path c, trim_path = Surveyor_trim_path,
      trim_paths = Surveyor_trim_paths, is_done = Surveyor_done\<rparr>"

text \<open>
  The loop of \<^verbatim>\<open>run\<close> may go on for ever when no budget is given, so \<open>run\<close> is a partial
  function: \<open>None\<close> is a loop that never ends. A \<^verbatim>\<open>break\<close> and a normal exit of the loop
  both reach \<^verbatim>\<open>return self\<close>.
\<close>

partial_function (option) run ::
  "('p, 'j, 'x, 'w) methods \<Rightarrow> ('j, 'u, 'p, 'e, 'x, 'w) collaborators \<Rightarrow> int option
     \<Rightarrow> ('p, 'j, 'w) state \<Rightarrow> (('x + ('p, 'j) surveyor) \<times> ('p, 'j, 'w) state) option" where
  "run m c n st =
     (case st of (s, w) \<Rightarrow>
        (case is_done m s w of
           (Inl x, w0) \<Rightarrow> Some (Inl x, (s, w0))
         | (Inr d, w0) \<Rightarrow>
             if \<not> d \<and> (case n of None \<Rightarrow> True | Some k \<Rightarrow> k > 0) then
               (case tick m c (s, w0) of
                  (Inl x, st1) \<Rightarrow> Some (Inl x, st1)
                | (Inr _, st1) \<Rightarrow>
                    (case trim m st1 of
                       (Inl x, st2) \<Rightarrow> Some (Inl x, st2)
                     | (Inr _, (s2, w2)) \<Rightarrow>
                         (let s3 = untrim s2 in
                          if STOP_RUNS w2 then Some (Inr s3, (s3, w2))
                          else
                            (case (if PAUSE_RUNS w2 then set_trace c s3 w2 else (Inr (), w2)) of
                               (Inl x, w3) \<Rightarrow> Some (Inl x, (s3, w3))
                             | (Inr _, w3) \<Rightarrow>
                                 run m c (case n of None \<Rightarrow> None | Some k \<Rightarrow> Some (k - 1))
                                   (s3, w3)))))
             else Some (Inr s, (s, w0))))"

text \<open>
  A reading of the loop of \<^verbatim>\<open>run\<close>, used to state what happens in a later round. It is
  written without \<open>run\<close>: \<open>loop_round\<close> is one passage through the loop that comes back to
  the loop test, that is, \<^verbatim>\<open>done\<close> returns false, the budget is not spent, \<^verbatim>\<open>tick\<close> and
  \<^verbatim>\<open>trim\<close> return, \<^verbatim>\<open>STOP_RUNS\<close> is not set after \<^verbatim>\<open>untrim\<close> and the debugger, if it is
  called, returns. It gives the budget and the state with which the loop test is reached
  again, and \<open>None\<close> when the loop is left on the way. \<open>loop_rounds j\<close> is \<open>j\<close> such passages
  in a row.
\<close>

definition loop_round ::
  "('p, 'j, 'x, 'w) methods \<Rightarrow> ('j, 'u, 'p, 'e, 'x, 'w) collaborators \<Rightarrow> int option
     \<Rightarrow> ('p, 'j, 'w) state \<Rightarrow> (int option \<times> ('p, 'j, 'w) state) option" where
  "loop_round m c n st =
     (case st of (s, w) \<Rightarrow>
        (case is_done m s w of
           (Inl x, w0) \<Rightarrow> None
         | (Inr d, w0) \<Rightarrow>
             if \<not> d \<and> (case n of None \<Rightarrow> True | Some k \<Rightarrow> k > 0) then
               (case tick m c (s, w0) of
                  (Inl x, st1) \<Rightarrow> None
                | (Inr _, st1) \<Rightarrow>
                    (case trim m st1 of
                       (Inl x, st2) \<Rightarrow> None
                     | (Inr _, (s2, w2)) \<Rightarrow>
                         if STOP_RUNS w2 then None
                         else
                           (case (if PAUSE_RUNS w2 then set_trace c (untrim s2) w2
                                  else (Inr (), w2)) of
                              (Inl x, w3) \<Rightarrow> None
                            | (Inr _, w3) \<Rightarrow>
                                Some (case n of None \<Rightarrow> None | Some k \<Rightarrow> Some (k - 1),
                                      (untrim s2, w3)))))
             else None))"

fun loop_rounds ::
  "('p, 'j, 'x, 'w) methods \<Rightarrow> ('j, 'u, 'p, 'e, 'x, 'w) collaborators \<Rightarrow> nat \<Rightarrow> int option
     \<Rightarrow> ('p, 'j, 'w) state \<Rightarrow> (int option \<times> ('p, 'j, 'w) state) option" where
  "loop_rounds m c 0 n st = Some (n, st)"
| "loop_rounds m c (Suc j) n st =
     (case loop_round m c n st of
        None \<Rightarrow> None
      | Some (n', st') \<Rightarrow> loop_rounds m c j n' st')"

subsection \<open>Faults of a hook\<close>

text \<open>
  A reading of a loop that calls a hook on each path in order, used to state where a fault
  comes from: the first fault that the hook raises, each call running in the world the
  previous call left, or \<open>None\<close> when every call returns.
\<close>

fun first_fault ::
  "('p \<Rightarrow> 'w world \<Rightarrow> ('x + 'a) \<times> 'w world) \<Rightarrow> 'p list \<Rightarrow> 'w world \<Rightarrow> 'x option" where
  "first_fault h [] w = None"
| "first_fault h (p # ps) w =
     (case h p w of
        (Inl x, w') \<Rightarrow> Some x
      | (Inr v, w') \<Rightarrow> first_fault h ps w')"

subsection \<open>A small instance\<close>

text \<open>
  A concrete set of collaborators, used to evaluate the definitions: paths, start units and
  the project are numbers, faults and error records are strings, and the heap is the list of
  the paths that have recorded an error. Path 0 forks into three, 2 dead-ends with an error,
  3 hands back path 2, 4 goes on with an error, 5 faults, and every other path has one
  successor.
\<close>

definition demo_continue_path ::
  "nat \<Rightarrow> nat list world \<Rightarrow> (string + nat list) \<times> nat list world" where
  "demo_continue_path p w =
     (if p = 0 then (Inr [1, 2, 3], w)
      else if p = 1 then (Inr [7], w)
      else if p = 2 then (Inr [], w\<lparr>heap := 2 # heap w\<rparr>)
      else if p = 3 then (Inr [2], w)
      else if p = 4 then (Inr [6], w\<lparr>heap := 4 # heap w\<rparr>)
      else if p = 5 then (Inl ''fault'', w)
      else (Inr [p + 1], w))"

definition demo :: "(nat, nat, nat, string, string, nat list) collaborators" where
  "demo =
     \<lparr>Path = (\<lambda>j e w. (Inr e, w)),
      initial_exit = (\<lambda>j w. (Inr j, w)),
      continue_path = demo_continue_path,
      path_errored = (\<lambda>p w. if p \<in> set (heap w) then [''error''] else []),
      set_trace = (\<lambda>s w. (Inr (), disable_singlestep w))\<rparr>"

definition demo_world :: "nat list world" where
  "demo_world = \<lparr>STOP_RUNS = False, PAUSE_RUNS = False, heap = []\<rparr>"

definition demo_surveyor :: "int \<Rightarrow> nat list \<Rightarrow> nat list \<Rightarrow> (nat, nat) surveyor" where
  "demo_surveyor limit act trm =
     \<lparr>project = 0, max_concurrency = limit, active = act, deadended = [], trimmed = trm,
      errored = [], current_tick = 0\<rparr>"

section \<open>Properties\<close>

subsection \<open>Slices and untrim\<close>

lemma slice_upto_nonneg: "0 \<le> i \<Longrightarrow> slice_upto xs i = take (nat i) xs"
  by (simp add: slice_upto_def)

lemma slice_from_nonneg: "0 \<le> i \<Longrightarrow> slice_from xs i = drop (nat i) xs"
  by (simp add: slice_from_def)

lemma slice_upto_from: "slice_upto xs i @ slice_from xs i = xs"
  by (simp add: slice_upto_def slice_from_def)

lemma length_slices: "length (slice_upto xs i) + length (slice_from xs i) = length xs"
proof -
  have "length (slice_upto xs i @ slice_from xs i) = length xs"
    by (simp only: slice_upto_from)
  then show ?thesis by simp
qed

lemma untrim_cases:
  "untrim s =
     (if max_concurrency s - int (length (active s)) > 0 \<and> trimmed s \<noteq> []
      then s\<lparr>active := active s @ take (nat (max_concurrency s - int (length (active s)))) (trimmed s),
             trimmed := drop (nat (max_concurrency s - int (length (active s)))) (trimmed s)\<rparr>
      else s)"
  by (simp add: untrim_def Let_def slice_upto_nonneg slice_from_nonneg)

lemma untrim_frame:
  "deadended (untrim s) = deadended s" "errored (untrim s) = errored s"
  "current_tick (untrim s) = current_tick s" "max_concurrency (untrim s) = max_concurrency s"
  "project (untrim s) = project s"
  by (simp_all add: untrim_cases)

lemma untrim_total_length:
  "length (active (untrim s)) + length (trimmed (untrim s)) = length (active s) + length (trimmed s)"
  by (auto simp: untrim_cases)

text \<open>
  Claim C4. \<^verbatim>\<open>untrim\<close> computes \<open>available = max_concurrency - len(active)\<close>. When
  \<open>available > 0\<close> and \<open>trimmed\<close> is not empty, exactly \<open>min available (len trimmed)\<close> paths
  move from the front of \<open>trimmed\<close> to the back of \<open>active\<close>, in their order, and the rest
  stays in \<open>trimmed\<close>. Otherwise nothing changes. Whenever \<^verbatim>\<open>untrim\<close> makes \<open>active\<close> longer,
  the new length is within the concurrency limit.
\<close>

theorem untrim_contract:
  "(max_concurrency s - int (length (active s)) > 0 \<and> trimmed s \<noteq> [] \<longrightarrow>
      (\<exists>moved. length moved = min (nat (max_concurrency s - int (length (active s)))) (length (trimmed s))
         \<and> trimmed s = moved @ trimmed (untrim s)
         \<and> active (untrim s) = active s @ moved))
   \<and> (max_concurrency s - int (length (active s)) \<le> 0 \<or> trimmed s = [] \<longrightarrow> untrim s = s)
   \<and> (length (active s) < length (active (untrim s)) \<longrightarrow>
        int (length (active (untrim s))) \<le> max_concurrency s)"
proof (intro conjI impI)
  let ?a = "nat (max_concurrency s - int (length (active s)))"
  assume h: "max_concurrency s - int (length (active s)) > 0 \<and> trimmed s \<noteq> []"
  then have u: "untrim s = s\<lparr>active := active s @ take ?a (trimmed s), trimmed := drop ?a (trimmed s)\<rparr>"
    by (simp add: untrim_cases)
  have "length (take ?a (trimmed s)) = min ?a (length (trimmed s))" by simp
  moreover have "trimmed s = take ?a (trimmed s) @ trimmed (untrim s)" by (simp add: u)
  moreover have "active (untrim s) = active s @ take ?a (trimmed s)" by (simp add: u)
  ultimately show "\<exists>moved. length moved = min ?a (length (trimmed s))
         \<and> trimmed s = moved @ trimmed (untrim s) \<and> active (untrim s) = active s @ moved"
    by blast
next
  assume "max_concurrency s - int (length (active s)) \<le> 0 \<or> trimmed s = []"
  then show "untrim s = s" by (auto simp: untrim_cases)
next
  assume "length (active s) < length (active (untrim s))"
  then show "int (length (active (untrim s))) \<le> max_concurrency s"
    by (auto simp: untrim_cases split: if_splits)
qed


theorem untrim_contract_witness:
  "max_concurrency (demo_surveyor 3 [1] [2, 3, 4]) - int (length (active (demo_surveyor 3 [1] [2, 3, 4]))) > 0
   \<and> trimmed (demo_surveyor 3 [1] [2, 3, 4]) \<noteq> []
   \<and> active (untrim (demo_surveyor 3 [1] [2, 3, 4])) = [1, 2, 3]
   \<and> trimmed (untrim (demo_surveyor 3 [1] [2, 3, 4])) = [4]
   \<and> untrim (demo_surveyor 1 [1] [2, 3, 4]) = demo_surveyor 1 [1] [2, 3, 4]"
  using untrim_contract [of "demo_surveyor 3 [1] [2, 3, 4]"]
    untrim_contract [of "demo_surveyor 1 [1] [2, 3, 4]"]
  by (simp add: demo_surveyor_def untrim_cases)

subsection \<open>trim\<close>

lemma trim_filter_cong: "trim_path m = trim_path m' \<Longrightarrow> trim_filter m ps w = trim_filter m' ps w"
  by (induction ps arbitrary: w) (simp_all split: prod.splits sum.splits)

lemma trim_filter_length:
  "trim_filter m ps w = (Inr kept, w') \<Longrightarrow> length kept \<le> length ps"
proof (induction ps arbitrary: w kept w')
  case Nil
  then show ?case by simp
next
  case (Cons p ps)
  then show ?case
    by (fastforce split: prod.splits sum.splits if_splits)
qed

lemma trim_filter_set:
  "trim_filter m ps w = (Inr kept, w') \<Longrightarrow> set kept \<subseteq> set ps"
proof (induction ps arbitrary: w kept w')
  case Nil
  then show ?case by simp
next
  case (Cons p ps)
  then show ?case
    by (fastforce split: prod.splits sum.splits if_splits)
qed

lemma trim_filter_default:
  "trim_path m = Surveyor_trim_path \<Longrightarrow> trim_filter m ps w = (Inr ps, w)"
  by (induction ps arbitrary: w) (simp_all add: Surveyor_trim_path_def)

lemma trim_base_policy:
  "trim (m\<lparr>trim_paths := Surveyor_trim_paths\<rparr>) (s, w) =
     (case trim_filter m (active s) w of
        (Inl x, w') \<Rightarrow> (Inl x, (s, w'))
      | (Inr kept, w') \<Rightarrow>
          (Inr (), (s\<lparr>trimmed := trimmed s @ slice_from kept (max_concurrency s),
                      active := slice_upto kept (max_concurrency s)\<rparr>, w')))"
proof -
  have "trim_filter (m\<lparr>trim_paths := Surveyor_trim_paths\<rparr>) (active s) w = trim_filter m (active s) w"
    by (rule trim_filter_cong) simp
  then show ?thesis
    by (simp add: trim_def Surveyor_trim_paths_def split: prod.splits sum.splits)
qed

lemma trim_base_policy_frame:
  assumes "trim (m\<lparr>trim_paths := Surveyor_trim_paths\<rparr>) (s, w) = (r, (s', w'))"
  shows "deadended s' = deadended s" and "errored s' = errored s"
    and "current_tick s' = current_tick s" and "max_concurrency s' = max_concurrency s"
    and "project s' = project s"
  using assms by (auto simp: trim_base_policy split: prod.splits sum.splits)

lemma trim_base_policy_total_length:
  assumes "trim (m\<lparr>trim_paths := Surveyor_trim_paths\<rparr>) (s, w) = (r, (s', w'))"
  shows "length (active s') + length (trimmed s') \<le> length (active s) + length (trimmed s)"
proof (cases "trim_filter m (active s) w")
  case (Pair res w1)
  show ?thesis
  proof (cases res)
    case (Inl x)
    with Pair assms show ?thesis by (simp add: trim_base_policy)
  next
    case (Inr kept)
    with Pair have "length kept \<le> length (active s)" by (simp add: trim_filter_length)
    moreover from Pair Inr assms
    have s': "s' = s\<lparr>trimmed := trimmed s @ slice_from kept (max_concurrency s),
                       active := slice_upto kept (max_concurrency s)\<rparr>"
      by (simp add: trim_base_policy)
    have "length (active s') + length (trimmed s') = length (trimmed s) + length kept"
      unfolding s' using length_slices [of kept "max_concurrency s"] by simp
    ultimately show ?thesis by simp
  qed
qed

lemma set_slices: "set (slice_upto xs i) \<union> set (slice_from xs i) = set xs"
proof -
  have "set (slice_upto xs i @ slice_from xs i) = set xs"
    by (simp only: slice_upto_from)
  then show ?thesis by simp
qed

lemma untrim_total_set:
  "set (active (untrim s)) \<union> set (trimmed (untrim s)) = set (active s) \<union> set (trimmed s)"
proof -
  have "set (take n (trimmed s)) \<union> set (drop n (trimmed s)) = set (trimmed s)" for n
    using set_append [of "take n (trimmed s)" "drop n (trimmed s)"] by simp
  then show ?thesis by (auto simp: untrim_cases)
qed

lemma trim_base_policy_total_set:
  assumes "trim (m\<lparr>trim_paths := Surveyor_trim_paths\<rparr>) (s, w) = (r, (s', w'))"
  shows "set (active s') \<union> set (trimmed s') \<subseteq> set (active s) \<union> set (trimmed s)"
proof (cases "trim_filter m (active s) w")
  case (Pair res w1)
  show ?thesis
  proof (cases res)
    case (Inl x)
    with Pair assms show ?thesis by (simp add: trim_base_policy)
  next
    case (Inr kept)
    with Pair have k: "set kept \<subseteq> set (active s)" by (simp add: trim_filter_set)
    from Pair Inr assms
    have s': "s' = s\<lparr>trimmed := trimmed s @ slice_from kept (max_concurrency s),
                       active := slice_upto kept (max_concurrency s)\<rparr>"
      by (simp add: trim_base_policy)
    have "set (active s') \<union> set (trimmed s') =
          set (trimmed s) \<union> (set (slice_upto kept (max_concurrency s))
                             \<union> set (slice_from kept (max_concurrency s)))"
      unfolding s' by (simp add: Un_ac)
    also have "\<dots> = set (trimmed s) \<union> set kept"
      by (simp only: set_slices)
    finally show ?thesis using k by blast
  qed
qed

lemma trim_base_class:
  "trim (Surveyor_methods c) (s, w) =
     (Inr (), (s\<lparr>trimmed := trimmed s @ slice_from (active s) (max_concurrency s),
                 active := slice_upto (active s) (max_concurrency s)\<rparr>, w))"
proof -
  have "trim_filter (Surveyor_methods c) (active s) w = (Inr (active s), w)"
    by (rule trim_filter_default) (simp add: Surveyor_methods_def)
  then show ?thesis
    by (simp add: trim_def Surveyor_methods_def Surveyor_trim_paths_def)
qed

subsection \<open>tick\<close>

lemma tick_loop_frame:
  "tick_loop m c ps acc (s, w) = (r, (s', w')) \<Longrightarrow>
     trimmed s' = trimmed s \<and> active s' = active s \<and> current_tick s' = current_tick s
     \<and> max_concurrency s' = max_concurrency s \<and> project s' = project s"
proof (induction ps arbitrary: acc s w)
  case Nil
  then show ?case by simp
next
  case (Cons p ps)
  show ?case
  proof (cases "tick_path m p w")
    case (Pair res w1)
    show ?thesis
    proof (cases res)
      case (Inl x)
      with Pair Cons.prems show ?thesis by simp
    next
      case (Inr succs)
      define s1 where "s1 = (if length (path_errored c p w1) > 0
                             then s\<lparr>errored := errored s @ [p]\<rparr> else s)"
      define s2 where "s2 = (if length succs = 0
                             then s1\<lparr>deadended := deadended s1 @ [p]\<rparr> else s1)"
      from Cons.prems Pair Inr
      have "tick_loop m c ps (acc @ succs) (s2, w1) = (r, (s', w'))"
        by (cases "path_errored c p w1 = []"; cases "succs = []"; simp add: s1_def s2_def)
      from Cons.IH [OF this]
      have "trimmed s' = trimmed s2 \<and> active s' = active s2 \<and> current_tick s' = current_tick s2
            \<and> max_concurrency s' = max_concurrency s2 \<and> project s' = project s2" .
      moreover have "trimmed s2 = trimmed s \<and> active s2 = active s \<and> current_tick s2 = current_tick s
            \<and> max_concurrency s2 = max_concurrency s \<and> project s2 = project s"
        by (simp add: s1_def s2_def)
      ultimately show ?thesis by simp
    qed
  qed
qed

lemma tick_frame:
  assumes "tick m c (s, w) = (r, (s', w'))"
  shows "trimmed s' = trimmed s" and "max_concurrency s' = max_concurrency s"
    and "project s' = project s"
proof -
  obtain r0 s0 w0 where l: "tick_loop m c (active s) [] (s, w) = (r0, (s0, w0))"
    by (metis surj_pair)
  note f = tick_loop_frame [OF l]
  from assms l f show "trimmed s' = trimmed s" and "max_concurrency s' = max_concurrency s"
    and "project s' = project s"
    by (auto simp: tick_def Let_def split: sum.splits)
qed

subsection \<open>Admission control\<close>

text \<open>
  Claim C3, amended. With the methods of the base class and a concurrency limit that is
  not negative, \<^verbatim>\<open>trim\<close> returns normally, leaves in \<open>active\<close> the first \<open>max_concurrency\<close>
  paths of the previous \<open>active\<close>, in order, appends the remainder in order to \<open>trimmed\<close>,
  and the length of \<open>active\<close> is at most the limit.
\<close>

theorem trim_base_class_nonneg_limit:
  assumes "0 \<le> max_concurrency s"
  shows "trim (Surveyor_methods c) (s, w) =
           (Inr (), (s\<lparr>trimmed := trimmed s @ drop (nat (max_concurrency s)) (active s),
                       active := take (nat (max_concurrency s)) (active s)\<rparr>, w))
         \<and> int (length (active (fst (snd (trim (Surveyor_methods c) (s, w))))))
             \<le> max_concurrency s"
  using assms by (simp add: trim_base_class slice_upto_nonneg slice_from_nonneg)

theorem trim_base_class_nonneg_limit_witness:
  "0 \<le> max_concurrency (demo_surveyor 2 [1, 2, 3] [9])
   \<and> trim (Surveyor_methods demo) (demo_surveyor 2 [1, 2, 3] [9], demo_world) =
       (Inr (), (demo_surveyor 2 [1, 2] [9, 3], demo_world))"
  using trim_base_class_nonneg_limit [of "demo_surveyor 2 [1, 2, 3] [9]" demo demo_world]
  by (simp add: demo_surveyor_def)

text \<open>
  With the limit \<open>-1\<close> the slices \<^verbatim>\<open>paths[:-1]\<close> and \<^verbatim>\<open>paths[-1:]\<close> keep all but the last path:
  two paths stay active, which is more than the limit and is not the first \<open>-1\<close> paths.
\<close>

theorem trim_negative_limit_counterexample:
  "trim (Surveyor_methods demo) (demo_surveyor (- 1) [1, 2, 3] [], demo_world) =
     (Inr (), (demo_surveyor (- 1) [1, 2] [3], demo_world))
   \<and> \<not> int (length (active (demo_surveyor (- 1) [1, 2] [3])))
         \<le> max_concurrency (demo_surveyor (- 1) [1, 2, 3] [])
   \<and> active (demo_surveyor (- 1) [1, 2] [3])
       \<noteq> take (nat (max_concurrency (demo_surveyor (- 1) [1, 2, 3] [])))
            (active (demo_surveyor (- 1) [1, 2, 3] []))"
  by (simp add: trim_base_class demo_surveyor_def slice_upto_def slice_from_def)

text \<open>
  Claim C8. For any admission filter, with the bulk policy of the base class: however
  \<^verbatim>\<open>trim\<close> ends, after \<^verbatim>\<open>trim\<close> and then \<^verbatim>\<open>untrim\<close> the sum of the lengths of \<open>active\<close> and
  \<open>trimmed\<close> is at most what it was before, and every path in the two sets was in one of
  them before. With the filter of the base class, which excludes nothing, the sum is the
  same.
\<close>

theorem trim_untrim_creates_no_path:
  assumes "trim (m\<lparr>trim_paths := Surveyor_trim_paths\<rparr>) (s, w) = (r, (s1, w1))"
  shows "length (active (untrim s1)) + length (trimmed (untrim s1))
           \<le> length (active s) + length (trimmed s)
         \<and> set (active (untrim s1)) \<union> set (trimmed (untrim s1))
           \<subseteq> set (active s) \<union> set (trimmed s)
         \<and> (trim_path m = Surveyor_trim_path \<longrightarrow>
              length (active (untrim s1)) + length (trimmed (untrim s1))
                = length (active s) + length (trimmed s))"
proof (intro conjI impI)
  show "length (active (untrim s1)) + length (trimmed (untrim s1))
           \<le> length (active s) + length (trimmed s)"
    using trim_base_policy_total_length [OF assms] by (simp only: untrim_total_length)
  show "set (active (untrim s1)) \<union> set (trimmed (untrim s1))
           \<subseteq> set (active s) \<union> set (trimmed s)"
    using trim_base_policy_total_set [OF assms] by (simp only: untrim_total_set)
  assume d: "trim_path m = Surveyor_trim_path"
  have "trim_filter m (active s) w = (Inr (active s), w)"
    using d by (rule trim_filter_default)
  with assms
  have s1: "s1 = s\<lparr>trimmed := trimmed s @ slice_from (active s) (max_concurrency s),
                     active := slice_upto (active s) (max_concurrency s)\<rparr>"
    by (simp add: trim_base_policy)
  have "length (active s1) + length (trimmed s1) = length (active s) + length (trimmed s)"
    unfolding s1 using length_slices [of "active s" "max_concurrency s"] by simp
  then show "length (active (untrim s1)) + length (trimmed (untrim s1))
             = length (active s) + length (trimmed s)"
    by (simp only: untrim_total_length)
qed

text \<open>
  The scenario of the specification: limit 2, three active paths. \<^verbatim>\<open>trim\<close> parks one path
  and \<^verbatim>\<open>untrim\<close> has no room to bring it back.
\<close>

theorem trim_untrim_creates_no_path_witness:
  "trim ((Surveyor_methods demo)\<lparr>trim_paths := Surveyor_trim_paths\<rparr>)
     (demo_surveyor 2 [1, 2, 3] [], demo_world) = (Inr (), (demo_surveyor 2 [1, 2] [3], demo_world))
   \<and> untrim (demo_surveyor 2 [1, 2] [3]) = demo_surveyor 2 [1, 2] [3]
   \<and> length (active (untrim (demo_surveyor 2 [1, 2] [3])))
       + length (trimmed (untrim (demo_surveyor 2 [1, 2] [3])))
       \<le> length (active (demo_surveyor 2 [1, 2, 3] [])) + length (trimmed (demo_surveyor 2 [1, 2, 3] []))"
proof -
  have t: "trim ((Surveyor_methods demo)\<lparr>trim_paths := Surveyor_trim_paths\<rparr>)
     (demo_surveyor 2 [1, 2, 3] [], demo_world) = (Inr (), (demo_surveyor 2 [1, 2] [3], demo_world))"
    by (simp add: trim_def Surveyor_methods_def Surveyor_trim_path_def Surveyor_trim_paths_def
        demo_surveyor_def slice_upto_def slice_from_def)
  show ?thesis
    using t trim_untrim_creates_no_path [OF t]
    by (simp add: untrim_cases demo_surveyor_def)
qed

text \<open>
  Claim C10. \<^verbatim>\<open>trim\<close> (with any filter and the bulk policy of the base class) and \<^verbatim>\<open>untrim\<close>
  leave \<open>deadended\<close> and \<open>errored\<close> as they are, and \<^verbatim>\<open>tick\<close> leaves \<open>trimmed\<close> as it is,
  also when a hook raises a fault on the way.
\<close>

theorem frame_conditions:
  "deadended (fst (snd (trim (m\<lparr>trim_paths := Surveyor_trim_paths\<rparr>) (s, w)))) = deadended s
   \<and> errored (fst (snd (trim (m\<lparr>trim_paths := Surveyor_trim_paths\<rparr>) (s, w)))) = errored s
   \<and> deadended (untrim s) = deadended s
   \<and> errored (untrim s) = errored s
   \<and> trimmed (fst (snd (tick m c (s, w)))) = trimmed s"
proof -
  obtain r s1 w1 where t: "trim (m\<lparr>trim_paths := Surveyor_trim_paths\<rparr>) (s, w) = (r, (s1, w1))"
    by (metis surj_pair)
  obtain r' s2 w2 where k: "tick m c (s, w) = (r', (s2, w2))"
    by (metis surj_pair)
  show ?thesis
    using trim_base_policy_frame(1,2) [OF t] tick_frame(1) [OF k]
    by (simp add: t k untrim_frame)
qed

theorem frame_conditions_witness:
  "trimmed (fst (snd (tick (Surveyor_methods demo) demo (demo_surveyor 2 [0, 2] [8], demo_world))))
     = [8]
   \<and> deadended (untrim (demo_surveyor 2 [0, 2] [8])) = []"
  using frame_conditions [of "Surveyor_methods demo" "demo_surveyor 2 [0, 2] [8]" demo_world demo]
  by (simp add: demo_surveyor_def)

subsection \<open>What one tick does\<close>

lemma tick_loop_outcomes:
  assumes "tick_loop m c ps acc (s, w) = (Inr new_active, (s', w'))"
  shows "map fst (step_outcomes m c ps w) = ps
       \<and> new_active = acc @ concat (map (\<lambda>(p, ss, es). ss) (step_outcomes m c ps w))
       \<and> errored s' = errored s @ map fst (filter (\<lambda>(p, ss, es). es \<noteq> []) (step_outcomes m c ps w))
       \<and> deadended s' = deadended s @ map fst (filter (\<lambda>(p, ss, es). ss = []) (step_outcomes m c ps w))"
  using assms
proof (induction ps arbitrary: acc s w)
  case Nil
  then show ?case by simp
next
  case (Cons p ps)
  show ?case
  proof (cases "tick_path m p w")
    case (Pair res w1)
    show ?thesis
    proof (cases res)
      case (Inl x)
      with Pair Cons.prems show ?thesis by simp
    next
      case (Inr succs)
      define s1 where "s1 = (if length (path_errored c p w1) > 0
                             then s\<lparr>errored := errored s @ [p]\<rparr> else s)"
      define s2 where "s2 = (if length succs = 0
                             then s1\<lparr>deadended := deadended s1 @ [p]\<rparr> else s1)"
      from Cons.prems Pair Inr
      have l: "tick_loop m c ps (acc @ succs) (s2, w1) = (Inr new_active, (s', w'))"
        by (cases "path_errored c p w1 = []"; cases "succs = []"; simp add: s1_def s2_def)
      note ih = Cons.IH [OF l]
      have o: "step_outcomes m c (p # ps) w = (p, succs, path_errored c p w1) # step_outcomes m c ps w1"
        by (simp add: Pair Inr)
      have e: "errored s2 = errored s @ (if path_errored c p w1 \<noteq> [] then [p] else [])"
        by (simp add: s1_def s2_def)
      have d: "deadended s2 = deadended s @ (if succs = [] then [p] else [])"
        by (simp add: s1_def s2_def)
      show ?thesis
        unfolding o using ih by (simp add: e d)
    qed
  qed
qed

lemma tick_result:
  assumes "tick m c (s, w) = (Inr r, (s', w'))"
  shows "r = s'"
    and "current_tick s' = current_tick s + 1"
    and "map fst (step_outcomes m c (active s) w) = active s"
    and "active s' = concat (map (\<lambda>(p, ss, es). ss) (step_outcomes m c (active s) w))"
    and "errored s' =
           errored s @ map fst (filter (\<lambda>(p, ss, es). es \<noteq> []) (step_outcomes m c (active s) w))"
    and "deadended s' =
           deadended s @ map fst (filter (\<lambda>(p, ss, es). ss = []) (step_outcomes m c (active s) w))"
proof -
  obtain r0 s0 w0 where l: "tick_loop m c (active s) [] (s, w) = (r0, (s0, w0))"
    by (metis surj_pair)
  from assms l obtain na where r0: "r0 = Inr na"
    by (cases r0) (simp_all add: tick_def)
  from assms l r0
  have s': "s' = s0\<lparr>active := na, current_tick := current_tick s0 + 1\<rparr>" and "r = s'"
    by (auto simp: tick_def Let_def)
  note o = tick_loop_outcomes [OF l [unfolded r0]]
  note f = tick_loop_frame [OF l]
  show "r = s'" by fact
  show "current_tick s' = current_tick s + 1" using f by (simp add: s')
  show "map fst (step_outcomes m c (active s) w) = active s" using o by simp
  show "active s' = concat (map (\<lambda>(p, ss, es). ss) (step_outcomes m c (active s) w))"
    using o by (simp add: s')
  show "errored s' =
           errored s @ map fst (filter (\<lambda>(p, ss, es). es \<noteq> []) (step_outcomes m c (active s) w))"
    using o by (simp add: s')
  show "deadended s' =
           deadended s @ map fst (filter (\<lambda>(p, ss, es). ss = []) (step_outcomes m c (active s) w))"
    using o by (simp add: s')
qed

lemmas demo_eval =
  tick_def trim_def Surveyor_methods_def Surveyor_tick_path_def Surveyor_trim_path_def
  Surveyor_trim_paths_def Surveyor_done_def demo_def demo_continue_path_def demo_surveyor_def
  demo_world_def slice_upto_def slice_from_def Let_def

text \<open>
  Claim C1, amended. When \<^verbatim>\<open>tick\<close> returns, the paths stepped are the paths that were active,
  in order. What the tick appends to \<open>errored\<close> is, in order, every stepped path whose error
  records are not empty after its step, whatever its successors; what it appends to
  \<open>deadended\<close> is, in order, every stepped path whose step returned no successor. A path
  whose step returns no successor and leaves an error record is in both lists after the
  tick, and it is in the new \<open>active\<close> exactly when some path stepped in this tick returned
  it among its successors.
\<close>

theorem tick_classifies_paths:
  assumes "tick m c (s, w) = (Inr r, (s', w'))"
    and "outs = step_outcomes m c (active s) w"
  shows "map fst outs = active s
       \<and> errored s' = errored s @ map fst (filter (\<lambda>(p, ss, es). es \<noteq> []) outs)
       \<and> deadended s' = deadended s @ map fst (filter (\<lambda>(p, ss, es). ss = []) outs)
       \<and> (\<forall>p es. (p, [], es) \<in> set outs \<and> es \<noteq> [] \<longrightarrow>
            p \<in> set (deadended s') \<and> p \<in> set (errored s')
            \<and> (p \<in> set (active s') \<longleftrightarrow> (\<exists>q ss es'. (q, ss, es') \<in> set outs \<and> p \<in> set ss)))"
proof (intro conjI allI impI)
  note t = tick_result [OF assms(1), folded assms(2)]
  show "map fst outs = active s" by (rule t(3))
  show e: "errored s' = errored s @ map fst (filter (\<lambda>(p, ss, es). es \<noteq> []) outs)" by (rule t(5))
  show d: "deadended s' = deadended s @ map fst (filter (\<lambda>(p, ss, es). ss = []) outs)" by (rule t(6))
  fix p es
  assume h: "(p, [], es) \<in> set outs \<and> es \<noteq> []"
  then have "(p, [], es) \<in> set (filter (\<lambda>(p, ss, es). ss = []) outs)" by simp
  then have "p \<in> set (map fst (filter (\<lambda>(p, ss, es). ss = []) outs))" by force
  then show "p \<in> set (deadended s')" by (simp add: d)
  from h have "(p, [], es) \<in> set (filter (\<lambda>(p, ss, es). es \<noteq> []) outs)" by simp
  then have "p \<in> set (map fst (filter (\<lambda>(p, ss, es). es \<noteq> []) outs))" by force
  then show "p \<in> set (errored s')" by (simp add: e)
  show "p \<in> set (active s') \<longleftrightarrow> (\<exists>q ss es'. (q, ss, es') \<in> set outs \<and> p \<in> set ss)"
    unfolding t(4) by auto
qed

theorem tick_classifies_paths_witness:
  "tick (Surveyor_methods demo) demo (demo_surveyor 10 [1, 2, 4] [], demo_world) =
     (Inr ((demo_surveyor 10 [7, 6] [])\<lparr>deadended := [2], errored := [2, 4], current_tick := 1\<rparr>),
      ((demo_surveyor 10 [7, 6] [])\<lparr>deadended := [2], errored := [2, 4], current_tick := 1\<rparr>,
       demo_world\<lparr>heap := [4, 2]\<rparr>))
   \<and> step_outcomes (Surveyor_methods demo) demo [1, 2, 4] demo_world =
       [(1, [7], []), (2, [], [''error'']), (4, [6], [''error''])]
   \<and> 2 \<notin> set [7, 6 :: nat]"
proof -
  have t: "tick (Surveyor_methods demo) demo (demo_surveyor 10 [1, 2, 4] [], demo_world) =
     (Inr ((demo_surveyor 10 [7, 6] [])\<lparr>deadended := [2], errored := [2, 4], current_tick := 1\<rparr>),
      ((demo_surveyor 10 [7, 6] [])\<lparr>deadended := [2], errored := [2, 4], current_tick := 1\<rparr>,
       demo_world\<lparr>heap := [4, 2]\<rparr>))"
    by (simp add: demo_eval)
  have o: "[(1, [7], []), (2, [], [''error'']), (4, [6], [''error''])] =
       step_outcomes (Surveyor_methods demo) demo (active (demo_surveyor 10 [1, 2, 4] [])) demo_world"
    by (simp add: demo_eval)
  show ?thesis
    using tick_classifies_paths [OF t o] t o by (simp add: demo_surveyor_def)
qed

text \<open>
  Path 2 returns no successor and records one error, and path 3, stepped in the same tick,
  returns path 2: after the tick path 2 is dead-ended, errored and active.
\<close>

theorem deadended_path_active_counterexample:
  "tick_path (Surveyor_methods demo) 2 demo_world = (Inr [], demo_world\<lparr>heap := [2]\<rparr>)
   \<and> length (path_errored demo 2 (demo_world\<lparr>heap := [2]\<rparr>)) = 1
   \<and> active (fst (snd (tick (Surveyor_methods demo) demo (demo_surveyor 10 [3, 2] [], demo_world)))) = [2]
   \<and> deadended (fst (snd (tick (Surveyor_methods demo) demo (demo_surveyor 10 [3, 2] [], demo_world)))) = [2]
   \<and> errored (fst (snd (tick (Surveyor_methods demo) demo (demo_surveyor 10 [3, 2] [], demo_world)))) = [2]"
  by (simp add: demo_eval)

text \<open>
  Claim C2. When \<^verbatim>\<open>tick\<close> returns, it has stepped the paths that were active, in order, and
  \<open>active\<close> is the concatenation of the successors returned by these steps, in the order of
  the paths and of each step's successors; nothing else is put into \<open>active\<close>. The round
  counter is one more than before, and the value returned is the surveyor. \<^verbatim>\<open>trim\<close> (any
  filter, bulk policy of the base class) and \<^verbatim>\<open>untrim\<close> leave the round counter as it is.
\<close>

theorem tick_replaces_active:
  assumes "tick m c (s, w) = (Inr r, (s', w'))"
    and "outs = step_outcomes m c (active s) w"
  shows "map fst outs = active s
       \<and> active s' = concat (map (\<lambda>(p, ss, es). ss) outs)
       \<and> current_tick s' = current_tick s + 1
       \<and> r = s'
       \<and> current_tick (fst (snd (trim (m\<lparr>trim_paths := Surveyor_trim_paths\<rparr>) (s, w))))
           = current_tick s
       \<and> current_tick (untrim s) = current_tick s"
proof -
  note t = tick_result [OF assms(1), folded assms(2)]
  obtain r1 s1 w1 where
    tr: "trim (m\<lparr>trim_paths := Surveyor_trim_paths\<rparr>) (s, w) = (r1, (s1, w1))"
    by (metis surj_pair)
  have "current_tick (fst (snd (trim (m\<lparr>trim_paths := Surveyor_trim_paths\<rparr>) (s, w))))
           = current_tick s"
    using trim_base_policy_frame(3) [OF tr] by (simp add: tr)
  with t show ?thesis by (simp add: untrim_frame)
qed

theorem tick_replaces_active_witness:
  "tick (Surveyor_methods demo) demo (demo_surveyor 2 [0, 4] [8], demo_world) =
     (Inr ((demo_surveyor 2 [1, 2, 3, 6] [8])\<lparr>errored := [4], current_tick := 1\<rparr>),
      ((demo_surveyor 2 [1, 2, 3, 6] [8])\<lparr>errored := [4], current_tick := 1\<rparr>,
       demo_world\<lparr>heap := [4]\<rparr>))
   \<and> step_outcomes (Surveyor_methods demo) demo [0, 4] demo_world =
       [(0, [1, 2, 3], []), (4, [6], [''error''])]
   \<and> current_tick (untrim (demo_surveyor 2 [0, 4] [8])) = 0"
proof -
  have t: "tick (Surveyor_methods demo) demo (demo_surveyor 2 [0, 4] [8], demo_world) =
     (Inr ((demo_surveyor 2 [1, 2, 3, 6] [8])\<lparr>errored := [4], current_tick := 1\<rparr>),
      ((demo_surveyor 2 [1, 2, 3, 6] [8])\<lparr>errored := [4], current_tick := 1\<rparr>,
       demo_world\<lparr>heap := [4]\<rparr>))"
    by (simp add: demo_eval)
  have o: "[(0, [1, 2, 3], []), (4, [6], [''error''])] =
       step_outcomes (Surveyor_methods demo) demo (active (demo_surveyor 2 [0, 4] [8])) demo_world"
    by (simp add: demo_eval)
  show ?thesis
    using tick_replaces_active [OF t o] t o by (simp add: demo_surveyor_def)
qed

subsection \<open>Construction\<close>

lemma seed_paths_length:
  "seed_paths c proj es w = (Inr ps, w') \<Longrightarrow> length ps = length es"
proof (induction es arbitrary: w ps)
  case Nil
  then show ?case by simp
next
  case (Cons e es)
  then show ?case by (fastforce split: prod.splits sum.splits)
qed

lemma analyze_exits_of_seed_Inr:
  "seed_paths c (project s) es w = (Inr ps, w') \<Longrightarrow>
     analyze_exits c es (s, w) = (Inr (), (s\<lparr>active := active s @ ps\<rparr>, w'))"
proof (induction es arbitrary: s w ps)
  case Nil
  then show ?case by simp
next
  case (Cons e es)
  from Cons.prems obtain p w1 qs where
    p: "Path c (project s) e w = (Inr p, w1)"
    and q: "seed_paths c (project s) es w1 = (Inr qs, w')" and ps: "ps = p # qs"
    by (auto split: prod.splits sum.splits)
  have "analyze_exits c es (s\<lparr>active := active s @ [p]\<rparr>, w1) =
          (Inr (), (s\<lparr>active := active s @ [p]\<rparr>\<lparr>active := active (s\<lparr>active := active s @ [p]\<rparr>) @ qs\<rparr>, w'))"
    by (rule Cons.IH) (simp add: q)
  then show ?case by (simp add: analyze_exit_def p ps)
qed

lemma analyze_exits_of_seed_Inl:
  "seed_paths c (project s) es w = (Inl x, w') \<Longrightarrow>
     \<exists>s'. analyze_exits c es (s, w) = (Inl x, (s', w'))"
proof (induction es arbitrary: s w)
  case Nil
  then show ?case by simp
next
  case (Cons e es)
  obtain res w1 where pw: "Path c (project s) e w = (res, w1)" by (metis surj_pair)
  show ?case
  proof (cases res)
    case (Inl y)
    with pw Cons.prems show ?thesis by (simp add: analyze_exit_def)
  next
    case (Inr p)
    with pw Cons.prems have "seed_paths c (project s) es w1 = (Inl x, w')"
      by (simp split: prod.splits sum.splits)
    then have "seed_paths c (project (s\<lparr>active := active s @ [p]\<rparr>)) es w1 = (Inl x, w')"
      by simp
    from Cons.IH [OF this] show ?thesis by (simp add: analyze_exit_def pw Inr)
  qed
qed

lemma init_starts_only:
  fixes c :: "('j, 'u, 'p, 'e, 'x, 'w) collaborators"
  shows "Surveyor_init c proj None (Some es) max_conc w =
     (case seed_paths c proj es w of
        (Inl x, w') \<Rightarrow> (Inl x, w')
      | (Inr ps, w') \<Rightarrow>
          (Inr \<lparr>project = proj,
                max_concurrency = (case max_conc of None \<Rightarrow> 10 | Some k \<Rightarrow> k),
                active = ps, deadended = [], trimmed = [], errored = [],
                current_tick = 0\<rparr>, w'))"
proof -
  define s0 :: "('p, 'j) surveyor" where
    "s0 = \<lparr>project = proj,
           max_concurrency = (case max_conc of None \<Rightarrow> 10 | Some k \<Rightarrow> k),
           active = [], deadended = [], trimmed = [], errored = [], current_tick = 0\<rparr>"
  have i: "Surveyor_init c proj None (Some es) max_conc w =
     (case analyze_exits c es (s0, w) of
        (Inl x, (s2, w2)) \<Rightarrow> (Inl x, w2) | (Inr u, (s2, w2)) \<Rightarrow> (Inr s2, w2))"
    by (simp add: Surveyor_init_def s0_def split: prod.splits sum.splits)
  obtain res w' where sp: "seed_paths c proj es w = (res, w')" by (metis surj_pair)
  have p0: "project s0 = proj" by (simp add: s0_def)
  show ?thesis
  proof (cases res)
    case (Inl x)
    with sp analyze_exits_of_seed_Inl [of c s0 es w x w'] p0 show ?thesis
      by (auto simp: i)
  next
    case (Inr ps)
    with sp analyze_exits_of_seed_Inr [of c s0 es w ps w'] p0 show ?thesis
      by (simp add: i) (simp add: s0_def)
  qed
qed

lemma init_start_and_starts:
  fixes c :: "('j, 'u, 'p, 'e, 'x, 'w) collaborators"
  shows "Surveyor_init c proj (Some e) (Some es) max_conc w =
     (case seed_paths c proj (e # es) w of
        (Inl x, w') \<Rightarrow> (Inl x, w')
      | (Inr ps, w') \<Rightarrow>
          (Inr \<lparr>project = proj,
                max_concurrency = (case max_conc of None \<Rightarrow> 10 | Some k \<Rightarrow> k),
                active = ps, deadended = [], trimmed = [], errored = [],
                current_tick = 0\<rparr>, w'))"
proof -
  define s0 :: "('p, 'j) surveyor" where
    "s0 = \<lparr>project = proj,
           max_concurrency = (case max_conc of None \<Rightarrow> 10 | Some k \<Rightarrow> k),
           active = [], deadended = [], trimmed = [], errored = [], current_tick = 0\<rparr>"
  have i: "Surveyor_init c proj (Some e) (Some es) max_conc w =
     (case analyze_exit c e (s0, w) of
        (Inl x, (s1, w1)) \<Rightarrow> (Inl x, w1)
      | (Inr u, st1) \<Rightarrow>
          (case analyze_exits c es st1 of
             (Inl x, (s2, w2)) \<Rightarrow> (Inl x, w2) | (Inr u, (s2, w2)) \<Rightarrow> (Inr s2, w2)))"
    by (simp add: Surveyor_init_def s0_def split: prod.splits sum.splits)
  have p0: "project s0 = proj" by (simp add: s0_def)
  obtain r1 w1 where pw: "Path c proj e w = (r1, w1)" by (metis surj_pair)
  show ?thesis
  proof (cases r1)
    case (Inl x)
    with pw show ?thesis by (simp add: i analyze_exit_def p0)
  next
    case (Inr p)
    have a: "analyze_exit c e (s0, w) = (Inr (), (s0\<lparr>active := [p]\<rparr>, w1))"
      by (simp add: analyze_exit_def p0 pw Inr s0_def)
    obtain res w' where sp: "seed_paths c proj es w1 = (res, w')" by (metis surj_pair)
    have p1: "project (s0\<lparr>active := [p]\<rparr>) = proj" by (simp add: s0_def)
    show ?thesis
    proof (cases res)
      case (Inl x)
      with sp analyze_exits_of_seed_Inl [of c "s0\<lparr>active := [p]\<rparr>" es w1 x w'] p1 show ?thesis
        by (auto simp: i a pw Inr)
    next
      case r: (Inr ps)
      with sp analyze_exits_of_seed_Inr [of c "s0\<lparr>active := [p]\<rparr>" es w1 ps w'] p1 show ?thesis
        by (simp add: i a pw Inr) (simp add: s0_def)
    qed
  qed
qed

lemma init_start_only:
  "Surveyor_init c proj (Some e) None max_conc w =
     (case seed_paths c proj [e] w of
        (Inl x, w') \<Rightarrow> (Inl x, w')
      | (Inr ps, w') \<Rightarrow>
          (Inr \<lparr>project = proj,
                max_concurrency = (case max_conc of None \<Rightarrow> 10 | Some k \<Rightarrow> k),
                active = ps, deadended = [], trimmed = [], errored = [],
                current_tick = 0\<rparr>, w'))"
  by (simp add: Surveyor_init_def analyze_exit_def split: prod.splits sum.splits)

lemma init_default:
  "Surveyor_init c proj None None max_conc w =
     (case (case initial_exit c proj w of
              (Inl x, w1) \<Rightarrow> (Inl x, w1)
            | (Inr e, w1) \<Rightarrow> seed_paths c proj [e] w1) of
        (Inl x, w') \<Rightarrow> (Inl x, w')
      | (Inr ps, w') \<Rightarrow>
          (Inr \<lparr>project = proj,
                max_concurrency = (case max_conc of None \<Rightarrow> 10 | Some k \<Rightarrow> k),
                active = ps, deadended = [], trimmed = [], errored = [],
                current_tick = 0\<rparr>, w'))"
  by (simp add: Surveyor_init_def analyze_exit_def split: prod.splits sum.splits)

text \<open>
  Claim C5, amended. The seeding is decided by which of \<^verbatim>\<open>start\<close> and \<^verbatim>\<open>starts\<close> are given, and
  the two can be given together: the start units are \<^verbatim>\<open>start\<close> (when given) followed by the
  elements of \<^verbatim>\<open>starts\<close> (when given). When neither is given, the only start unit is the
  project's \<^verbatim>\<open>initial_exit()\<close>. The constructor wraps each start unit in one path, in
  order, so there are as many active paths as start units: three for a sequence of three.
  \<open>deadended\<close>, \<open>errored\<close> and \<open>trimmed\<close> are empty, the round counter is 0, and the
  concurrency limit is 10 when none is given. A fault of a collaborator is the fault of the
  constructor.
\<close>

theorem Surveyor_init_seeding:
  "Surveyor_init c proj start starts max_conc w =
     (case (if start = None \<and> starts = None
            then (case initial_exit c proj w of
                    (Inl x, w1) \<Rightarrow> (Inl x, w1)
                  | (Inr e, w1) \<Rightarrow> seed_paths c proj [e] w1)
            else seed_paths c proj
                   ((case start of None \<Rightarrow> [] | Some e \<Rightarrow> [e])
                    @ (case starts of None \<Rightarrow> [] | Some es \<Rightarrow> es)) w) of
        (Inl x, w') \<Rightarrow> (Inl x, w')
      | (Inr ps, w') \<Rightarrow>
          (Inr \<lparr>project = proj,
                max_concurrency = (case max_conc of None \<Rightarrow> 10 | Some k \<Rightarrow> k),
                active = ps, deadended = [], trimmed = [], errored = [],
                current_tick = 0\<rparr>, w'))
   \<and> (\<forall>es ps w'. seed_paths c proj es w = (Inr ps, w') \<longrightarrow> length ps = length es)"
proof (intro conjI allI impI)
  show "Surveyor_init c proj start starts max_conc w =
     (case (if start = None \<and> starts = None
            then (case initial_exit c proj w of
                    (Inl x, w1) \<Rightarrow> (Inl x, w1)
                  | (Inr e, w1) \<Rightarrow> seed_paths c proj [e] w1)
            else seed_paths c proj
                   ((case start of None \<Rightarrow> [] | Some e \<Rightarrow> [e])
                    @ (case starts of None \<Rightarrow> [] | Some es \<Rightarrow> es)) w) of
        (Inl x, w') \<Rightarrow> (Inl x, w')
      | (Inr ps, w') \<Rightarrow>
          (Inr \<lparr>project = proj,
                max_concurrency = (case max_conc of None \<Rightarrow> 10 | Some k \<Rightarrow> k),
                active = ps, deadended = [], trimmed = [], errored = [],
                current_tick = 0\<rparr>, w'))"
  proof (cases start)
    case None
    show ?thesis
    proof (cases starts)
      case n: None
      show ?thesis unfolding None n by (simp only: init_default simp_thms if_True)
    next
      case (Some es)
      show ?thesis unfolding None Some by (simp only: init_starts_only) simp
    qed
  next
    case (Some e)
    show ?thesis
    proof (cases starts)
      case None
      show ?thesis unfolding Some None by (simp only: init_start_only) simp
    next
      case s: (Some es)
      show ?thesis unfolding Some s by (simp only: init_start_and_starts) simp
    qed
  qed
next
  fix es ps w'
  assume "seed_paths c proj es w = (Inr ps, w')"
  then show "length ps = length es" by (rule seed_paths_length)
qed

theorem Surveyor_init_seeding_witness:
  "Surveyor_init demo 0 None (Some [5, 6, 7]) None demo_world =
     (Inr (demo_surveyor 10 [5, 6, 7] []), demo_world)
   \<and> seed_paths demo 0 [5, 6, 7] demo_world = (Inr [5, 6, 7], demo_world)
   \<and> length [5, 6, 7 :: nat] = 3
   \<and> Surveyor_init demo 0 None None (Some 4) demo_world =
       (Inr (demo_surveyor 4 [0] []), demo_world)"
proof -
  show ?thesis
    using Surveyor_init_seeding [of demo 0 None "Some [5, 6, 7]" None demo_world]
      Surveyor_init_seeding [of demo 0 None None "Some 4" demo_world]
    by (simp add: demo_def demo_surveyor_def)
qed

text \<open>
  With both \<^verbatim>\<open>start\<close> and \<^verbatim>\<open>starts\<close> given, the surveyor starts with the paths of both: the
  seeding is none of the three that a single mode gives.
\<close>

theorem both_seeding_modes_counterexample:
  "Surveyor_init demo 0 (Some 5) (Some [6]) None demo_world =
     (Inr (demo_surveyor 10 [5, 6] []), demo_world)
   \<and> Surveyor_init demo 0 (Some 5) None None demo_world =
       (Inr (demo_surveyor 10 [5] []), demo_world)
   \<and> Surveyor_init demo 0 None (Some [6]) None demo_world =
       (Inr (demo_surveyor 10 [6] []), demo_world)
   \<and> Surveyor_init demo 0 None None None demo_world =
       (Inr (demo_surveyor 10 [0] []), demo_world)
   \<and> active (demo_surveyor 10 [5, 6] []) \<noteq> active (demo_surveyor 10 [5] [])
   \<and> active (demo_surveyor 10 [5, 6] []) \<noteq> active (demo_surveyor 10 [6] [])
   \<and> active (demo_surveyor 10 [5, 6] []) \<noteq> active (demo_surveyor 10 [0] [])"
  by (simp add: Surveyor_init_def analyze_exit_def demo_def demo_surveyor_def)

subsection \<open>The run loop\<close>

lemma tick_counter:
  assumes "tick m c (s, w) = (r, (s', w'))"
  shows "current_tick s' = (case r of Inl x \<Rightarrow> current_tick s | Inr v \<Rightarrow> current_tick s + 1)"
proof -
  obtain r0 s0 w0 where l: "tick_loop m c (active s) [] (s, w) = (r0, (s0, w0))"
    by (metis surj_pair)
  note f = tick_loop_frame [OF l]
  show ?thesis
  proof (cases r0)
    case (Inl x)
    with assms l f show ?thesis by (auto simp: tick_def)
  next
    case (Inr na)
    with assms l f show ?thesis by (auto simp: tick_def Let_def)
  qed
qed

lemma run_cases [case_names done_fault exit tick_fault trim_fault stop pause_fault again]:
  obtains
    x w0 where "is_done m s w = (Inl x, w0)" and "run m c n (s, w) = Some (Inl x, (s, w0))"
  | d w0 where "is_done m s w = (Inr d, w0)"
      and "d \<or> \<not> (case n of None \<Rightarrow> True | Some k \<Rightarrow> k > 0)"
      and "run m c n (s, w) = Some (Inr s, (s, w0))"
  | w0 x st1 where "is_done m s w = (Inr False, w0)"
      and "case n of None \<Rightarrow> True | Some k \<Rightarrow> k > 0"
      and "tick m c (s, w0) = (Inl x, st1)"
      and "run m c n (s, w) = Some (Inl x, st1)"
  | w0 r1 st1 x st2 where "is_done m s w = (Inr False, w0)"
      and "case n of None \<Rightarrow> True | Some k \<Rightarrow> k > 0"
      and "tick m c (s, w0) = (Inr r1, st1)"
      and "trim m st1 = (Inl x, st2)"
      and "run m c n (s, w) = Some (Inl x, st2)"
  | w0 r1 st1 r2 s2 w2 where "is_done m s w = (Inr False, w0)"
      and "case n of None \<Rightarrow> True | Some k \<Rightarrow> k > 0"
      and "tick m c (s, w0) = (Inr r1, st1)"
      and "trim m st1 = (Inr r2, (s2, w2))"
      and "STOP_RUNS w2"
      and "run m c n (s, w) = Some (Inr (untrim s2), (untrim s2, w2))"
  | w0 r1 st1 r2 s2 w2 x w3 where "is_done m s w = (Inr False, w0)"
      and "case n of None \<Rightarrow> True | Some k \<Rightarrow> k > 0"
      and "tick m c (s, w0) = (Inr r1, st1)"
      and "trim m st1 = (Inr r2, (s2, w2))"
      and "\<not> STOP_RUNS w2" and "PAUSE_RUNS w2"
      and "set_trace c (untrim s2) w2 = (Inl x, w3)"
      and "run m c n (s, w) = Some (Inl x, (untrim s2, w3))"
  | w0 r1 st1 r2 s2 w2 u w3 where "is_done m s w = (Inr False, w0)"
      and "case n of None \<Rightarrow> True | Some k \<Rightarrow> k > 0"
      and "tick m c (s, w0) = (Inr r1, st1)"
      and "trim m st1 = (Inr r2, (s2, w2))"
      and "\<not> STOP_RUNS w2"
      and "(if PAUSE_RUNS w2 then set_trace c (untrim s2) w2 else (Inr (), w2)) = (Inr u, w3)"
      and "run m c n (s, w) =
             run m c (case n of None \<Rightarrow> None | Some k \<Rightarrow> Some (k - 1)) (untrim s2, w3)"
proof -
  obtain dr w0 where d: "is_done m s w = (dr, w0)" by (metis surj_pair)
  show thesis
  proof (cases dr)
    case (Inl x)
    have "run m c n (s, w) = Some (Inl x, (s, w0))"
      by (subst run.simps) (simp add: d Inl)
    with d Inl show thesis by (auto intro: that(1))
  next
    case (Inr b)
    show thesis
    proof (cases "\<not> b \<and> (case n of None \<Rightarrow> True | Some k \<Rightarrow> k > 0)")
      case False
      then have "run m c n (s, w) = Some (Inr s, (s, w0))"
        by (subst run.simps) (simp add: d Inr if_not_P [OF False])
      with d Inr False show thesis by (auto intro: that(2))
    next
      case True
      then have b: "b = False" and n: "case n of None \<Rightarrow> True | Some k \<Rightarrow> k > 0" by simp_all
      note d' = d [unfolded Inr b]
      obtain tr st1 where t: "tick m c (s, w0) = (tr, st1)" by (metis surj_pair)
      show thesis
      proof (cases tr)
        case (Inl x)
        have "run m c n (s, w) = Some (Inl x, st1)"
          by (subst run.simps) (simp add: d' n t Inl)
        with d' n t Inl show thesis by (auto intro: that(3))
      next
        case r1: (Inr r1)
        obtain mr s2 w2 where m: "trim m st1 = (mr, (s2, w2))" by (metis surj_pair)
        show thesis
        proof (cases mr)
          case (Inl x)
          have "run m c n (s, w) = Some (Inl x, (s2, w2))"
            by (subst run.simps) (simp add: d' n t r1 m Inl)
          with d' n t r1 m Inl show thesis by (auto intro: that(4))
        next
          case r2: (Inr r2)
          show thesis
          proof (cases "STOP_RUNS w2")
            case True
            have "run m c n (s, w) = Some (Inr (untrim s2), (untrim s2, w2))"
              by (subst run.simps) (simp add: d' n t r1 m r2 True Let_def)
            with d' n t r1 m r2 True show thesis by (auto intro: that(5))
          next
            case False
            obtain pr w3 where
              p: "(if PAUSE_RUNS w2 then set_trace c (untrim s2) w2 else (Inr (), w2)) = (pr, w3)"
              by (metis surj_pair)
            show thesis
            proof (cases pr)
              case (Inl x)
              with p have pa: "PAUSE_RUNS w2" and st: "set_trace c (untrim s2) w2 = (Inl x, w3)"
                by (auto split: if_splits)
              have "run m c n (s, w) = Some (Inl x, (untrim s2, w3))"
                by (subst run.simps) (simp add: d' n t r1 m r2 False pa st Let_def)
              with d' n t r1 m r2 False pa st show thesis by (auto intro: that(6))
            next
              case (Inr u)
              have "run m c n (s, w) =
                 run m c (case n of None \<Rightarrow> None | Some k \<Rightarrow> Some (k - 1)) (untrim s2, w3)"
                by (subst run.simps) (simp add: d' n t r1 m r2 False p [unfolded Inr] Let_def)
              with d' n t r1 m r2 False p Inr show thesis by (auto intro: that(7))
            qed
          qed
        qed
      qed
    qed
  qed
qed

lemma run_budget_bound:
  "\<exists>r s' w'. run (m\<lparr>trim_paths := Surveyor_trim_paths\<rparr>) c (Some k) (s, w) = Some (r, (s', w'))
      \<and> current_tick s \<le> current_tick s'
      \<and> current_tick s' \<le> current_tick s + max 0 k
      \<and> (\<forall>v. r = Inr v \<longrightarrow> v = s')"
proof (induction "nat k" arbitrary: k s w)
  case 0
  then have k: "k \<le> 0" by simp
  show ?case
  proof (cases rule: run_cases [of "m\<lparr>trim_paths := Surveyor_trim_paths\<rparr>" s w c "Some k"])
    case (done_fault x w0)
    then show ?thesis by simp
  next
    case (exit d w0)
    then show ?thesis by simp
  next
    case (tick_fault w0 x st1)
    with k show ?thesis by simp
  next
    case (trim_fault w0 r1 st1 x st2)
    with k show ?thesis by simp
  next
    case (stop w0 r1 st1 r2 s2 w2)
    with k show ?thesis by simp
  next
    case (pause_fault w0 r1 st1 r2 s2 w2 x w3)
    with k show ?thesis by simp
  next
    case (again w0 r1 st1 r2 s2 w2 u w3)
    with k show ?thesis by simp
  qed
next
  case (Suc j)
  then have k: "0 < k" and j: "j = nat (k - 1)" by simp_all
  show ?case
  proof (cases rule: run_cases [of "m\<lparr>trim_paths := Surveyor_trim_paths\<rparr>" s w c "Some k"])
    case (done_fault x w0)
    then show ?thesis by simp
  next
    case (exit d w0)
    then show ?thesis by simp
  next
    case (tick_fault w0 x st1)
    obtain s1 w1 where st1: "st1 = (s1, w1)" by (cases st1)
    from tick_counter [OF tick_fault(3) [unfolded st1]] have "current_tick s1 = current_tick s"
      by simp
    with tick_fault(4) st1 k show ?thesis by simp
  next
    case (trim_fault w0 r1 st1 x st2)
    obtain s1 w1 where st1: "st1 = (s1, w1)" by (cases st1)
    obtain s2 w2 where st2: "st2 = (s2, w2)" by (cases st2)
    from tick_counter [OF trim_fault(3) [unfolded st1]]
    have "current_tick s1 = current_tick s + 1" by simp
    moreover from trim_base_policy_frame(3) [OF trim_fault(4) [unfolded st1 st2]]
    have "current_tick s2 = current_tick s1" .
    ultimately show ?thesis using trim_fault(5) st2 k by simp
  next
    case (stop w0 r1 st1 r2 s2 w2)
    obtain s1 w1 where st1: "st1 = (s1, w1)" by (cases st1)
    from tick_counter [OF stop(3) [unfolded st1]]
    have "current_tick s1 = current_tick s + 1" by simp
    moreover from trim_base_policy_frame(3) [OF stop(4) [unfolded st1]]
    have "current_tick s2 = current_tick s1" .
    ultimately show ?thesis using stop(6) k by (simp add: untrim_frame)
  next
    case (pause_fault w0 r1 st1 r2 s2 w2 x w3)
    obtain s1 w1 where st1: "st1 = (s1, w1)" by (cases st1)
    from tick_counter [OF pause_fault(3) [unfolded st1]]
    have "current_tick s1 = current_tick s + 1" by simp
    moreover from trim_base_policy_frame(3) [OF pause_fault(4) [unfolded st1]]
    have "current_tick s2 = current_tick s1" .
    ultimately show ?thesis using pause_fault(8) k by (simp add: untrim_frame)
  next
    case (again w0 r1 st1 r2 s2 w2 u w3)
    obtain s1 w1 where st1: "st1 = (s1, w1)" by (cases st1)
    from tick_counter [OF again(3) [unfolded st1]]
    have "current_tick s1 = current_tick s + 1" by simp
    moreover from trim_base_policy_frame(3) [OF again(4) [unfolded st1]]
    have "current_tick s2 = current_tick s1" .
    ultimately have c: "current_tick (untrim s2) = current_tick s + 1"
      by (simp add: untrim_frame)
    from Suc.hyps(1) [OF j, of "untrim s2" w3] obtain r s' w' where
      r: "run (m\<lparr>trim_paths := Surveyor_trim_paths\<rparr>) c (Some (k - 1)) (untrim s2, w3)
            = Some (r, (s', w'))"
      and b: "current_tick (untrim s2) \<le> current_tick s'"
        "current_tick s' \<le> current_tick (untrim s2) + max 0 (k - 1)"
        "\<forall>v. r = Inr v \<longrightarrow> v = s'"
      by blast
    from again(7) r have "run (m\<lparr>trim_paths := Surveyor_trim_paths\<rparr>) c (Some k) (s, w)
            = Some (r, (s', w'))" by simp
    moreover from b c k have "current_tick s \<le> current_tick s'"
      and "current_tick s' \<le> current_tick s + max 0 k" by simp_all
    ultimately show ?thesis using b(3) by blast
  qed
qed

text \<open>
  Claim C6. With a budget \<open>k\<close>, any step function, any admission filter and any \<^verbatim>\<open>done\<close>
  predicate (and the bulk policy of the base class), \<^verbatim>\<open>run\<close> ends, with a value or with a
  hook's fault, and the round counter, which each \<^verbatim>\<open>tick\<close> raises by one, has grown by at
  most \<open>k\<close> (by nothing when \<open>k \<le> 0\<close>): at most \<open>k\<close> rounds, also when \<^verbatim>\<open>done\<close> never holds. The
  value returned is the surveyor. When \<^verbatim>\<open>done\<close> holds at the start, whatever the budget,
  \<^verbatim>\<open>run\<close> returns the surveyor untouched; with the \<^verbatim>\<open>done\<close> of the base class that is when
  \<open>active\<close> is empty. A round is \<^verbatim>\<open>tick\<close>, then \<^verbatim>\<open>trim\<close>, then \<^verbatim>\<open>untrim\<close>, and it costs one
  unit of the budget.
\<close>

theorem run_within_budget:
  "(\<exists>r s' w'. run (m\<lparr>trim_paths := Surveyor_trim_paths\<rparr>) c (Some k) (s, w) = Some (r, (s', w'))
       \<and> current_tick s \<le> current_tick s'
       \<and> current_tick s' \<le> current_tick s + max 0 k
       \<and> (\<forall>v. r = Inr v \<longrightarrow> v = s'))
   \<and> (\<forall>w0. is_done m s w = (Inr True, w0) \<longrightarrow> run m c n (s, w) = Some (Inr s, (s, w0)))
   \<and> (active s = [] \<longrightarrow> run (Surveyor_methods c) c n (s, w) = Some (Inr s, (s, w)))
   \<and> (\<forall>w0 r1 st1 r2 s2 w2.
         is_done m s w = (Inr False, w0) \<and> 0 < k \<and> tick m c (s, w0) = (Inr r1, st1)
         \<and> trim m st1 = (Inr r2, (s2, w2)) \<and> \<not> STOP_RUNS w2 \<and> \<not> PAUSE_RUNS w2 \<longrightarrow>
         run m c (Some k) (s, w) = run m c (Some (k - 1)) (untrim s2, w2))"
proof (intro conjI allI impI)
  show "\<exists>r s' w'. run (m\<lparr>trim_paths := Surveyor_trim_paths\<rparr>) c (Some k) (s, w) = Some (r, (s', w'))
       \<and> current_tick s \<le> current_tick s'
       \<and> current_tick s' \<le> current_tick s + max 0 k
       \<and> (\<forall>v. r = Inr v \<longrightarrow> v = s')"
    by (rule run_budget_bound)
next
  fix w0
  assume "is_done m s w = (Inr True, w0)"
  then show "run m c n (s, w) = Some (Inr s, (s, w0))"
    by (subst run.simps) simp
next
  assume "active s = []"
  then show "run (Surveyor_methods c) c n (s, w) = Some (Inr s, (s, w))"
    by (subst run.simps) (simp add: Surveyor_methods_def Surveyor_done_def)
next
  fix w0 r1 st1 r2 s2 w2
  assume "is_done m s w = (Inr False, w0) \<and> 0 < k \<and> tick m c (s, w0) = (Inr r1, st1)
         \<and> trim m st1 = (Inr r2, (s2, w2)) \<and> \<not> STOP_RUNS w2 \<and> \<not> PAUSE_RUNS w2"
  then show "run m c (Some k) (s, w) = run m c (Some (k - 1)) (untrim s2, w2)"
    by (subst run.simps) (simp add: Let_def)
qed

text \<open>
  A \<^verbatim>\<open>done\<close> that never holds and a path that always has one successor: with budget 2 the
  loop stops after two rounds.
\<close>

theorem run_within_budget_witness:
  "run ((Surveyor_methods demo)\<lparr>is_done := (\<lambda>s w. (Inr False, w)),
                                trim_paths := Surveyor_trim_paths\<rparr>) demo (Some 2)
       (demo_surveyor 10 [10] [], demo_world) =
     Some (Inr ((demo_surveyor 10 [12] [])\<lparr>current_tick := 2\<rparr>),
           ((demo_surveyor 10 [12] [])\<lparr>current_tick := 2\<rparr>, demo_world))
   \<and> current_tick ((demo_surveyor 10 [12] [])\<lparr>current_tick := 2\<rparr>)
       \<le> current_tick (demo_surveyor 10 [10] []) + max 0 2
   \<and> tick ((Surveyor_methods demo)\<lparr>is_done := (\<lambda>s w. (Inr False, w)),
                                   trim_paths := Surveyor_trim_paths\<rparr>) demo
         (demo_surveyor 10 [10] [], demo_world) =
       (Inr ((demo_surveyor 10 [11] [])\<lparr>current_tick := 1\<rparr>),
        ((demo_surveyor 10 [11] [])\<lparr>current_tick := 1\<rparr>, demo_world))
   \<and> active (demo_surveyor 10 [] []) = []
   \<and> run (Surveyor_methods demo) demo None (demo_surveyor 10 [] [], demo_world) =
       Some (Inr (demo_surveyor 10 [] []), (demo_surveyor 10 [] [], demo_world))"
proof -
  have r: "run ((Surveyor_methods demo)\<lparr>is_done := (\<lambda>s w. (Inr False, w)),
                                trim_paths := Surveyor_trim_paths\<rparr>) demo (Some 2)
       (demo_surveyor 10 [10] [], demo_world) =
     Some (Inr ((demo_surveyor 10 [12] [])\<lparr>current_tick := 2\<rparr>),
           ((demo_surveyor 10 [12] [])\<lparr>current_tick := 2\<rparr>, demo_world))"
    apply (subst run.simps)
    apply (simp add: demo_eval untrim_def)
    apply (subst run.simps)
    apply (simp add: demo_eval untrim_def)
    apply (subst run.simps)
    apply (simp add: demo_eval untrim_def)
    done
  have t: "tick ((Surveyor_methods demo)\<lparr>is_done := (\<lambda>s w. (Inr False, w)),
                                   trim_paths := Surveyor_trim_paths\<rparr>) demo
         (demo_surveyor 10 [10] [], demo_world) =
       (Inr ((demo_surveyor 10 [11] [])\<lparr>current_tick := 1\<rparr>),
        ((demo_surveyor 10 [11] [])\<lparr>current_tick := 1\<rparr>, demo_world))"
    by (simp add: demo_eval)
  show ?thesis
    using r t
      run_within_budget [of "(Surveyor_methods demo)\<lparr>is_done := (\<lambda>s w. (Inr False, w))\<rparr>"
        demo 2 "demo_surveyor 10 [10] []" demo_world None]
      run_within_budget [of "Surveyor_methods demo" demo 2 "demo_surveyor 10 [] []" demo_world None]
    by (simp add: demo_surveyor_def)
qed

text \<open>Rounds that come back to the loop test.\<close>

lemma loop_round_SomeD:
  assumes "loop_round m c n (s, w) = Some (n', st')"
  obtains w0 r1 st1 r2 s2 w2 u w3 where
    "is_done m s w = (Inr False, w0)"
    and "case n of None \<Rightarrow> True | Some k \<Rightarrow> k > 0"
    and "tick m c (s, w0) = (Inr r1, st1)"
    and "trim m st1 = (Inr r2, (s2, w2))"
    and "\<not> STOP_RUNS w2"
    and "(if PAUSE_RUNS w2 then set_trace c (untrim s2) w2 else (Inr (), w2)) = (Inr u, w3)"
    and "n' = (case n of None \<Rightarrow> None | Some k \<Rightarrow> Some (k - 1))"
    and "st' = (untrim s2, w3)"
proof -
  obtain dr w0 where d: "is_done m s w = (dr, w0)" by (metis surj_pair)
  from assms d obtain b where dr: "dr = Inr b"
    by (cases dr) (simp_all add: loop_round_def)
  from assms d dr have b: "b = False" and n: "case n of None \<Rightarrow> True | Some k \<Rightarrow> k > 0"
    by (auto simp: loop_round_def split: if_splits)
  obtain tr st1 where t: "tick m c (s, w0) = (tr, st1)" by (metis surj_pair)
  from assms d dr b n t obtain r1 where tr: "tr = Inr r1"
    by (cases tr) (simp_all add: loop_round_def)
  obtain mr s2 w2 where tm: "trim m st1 = (mr, (s2, w2))" by (metis surj_pair)
  from assms d dr b n t tr tm obtain r2 where mr: "mr = Inr r2"
    by (cases mr) (simp_all add: loop_round_def)
  from assms d dr b n t tr tm mr have ns: "\<not> STOP_RUNS w2"
    by (auto simp: loop_round_def split: if_splits)
  obtain pr w3 where
    p: "(if PAUSE_RUNS w2 then set_trace c (untrim s2) w2 else (Inr (), w2)) = (pr, w3)"
    by (metis surj_pair)
  from assms d dr b n t tr tm mr ns p obtain u where pr: "pr = Inr u"
    by (cases pr) (simp_all add: loop_round_def)
  from assms d dr b n t tr tm mr ns p pr
  have "n' = (case n of None \<Rightarrow> None | Some k \<Rightarrow> Some (k - 1))" and "st' = (untrim s2, w3)"
    by (simp_all add: loop_round_def)
  with d dr b n t tr tm mr ns p pr that show thesis by simp
qed

lemma loop_round_run:
  assumes "loop_round m c n st = Some (n', st')"
  shows "run m c n st = run m c n' st'"
proof -
  obtain s w where st: "st = (s, w)" by (cases st)
  from assms [unfolded st] show ?thesis
  proof (rule loop_round_SomeD)
    fix w0 r1 st1 r2 s2 w2 u w3
    assume "is_done m s w = (Inr False, w0)"
      and "case n of None \<Rightarrow> True | Some k \<Rightarrow> k > 0"
      and "tick m c (s, w0) = (Inr r1, st1)"
      and "trim m st1 = (Inr r2, (s2, w2))"
      and "\<not> STOP_RUNS w2"
      and "(if PAUSE_RUNS w2 then set_trace c (untrim s2) w2 else (Inr (), w2)) = (Inr u, w3)"
      and "n' = (case n of None \<Rightarrow> None | Some k \<Rightarrow> Some (k - 1))"
      and "st' = (untrim s2, w3)"
    then show "run m c n st = run m c n' st'"
      unfolding st by (subst run.simps) (simp add: Let_def)
  qed
qed

lemma loop_rounds_run:
  "loop_rounds m c j n st = Some (n', st') \<Longrightarrow> run m c n st = run m c n' st'"
proof (induction j arbitrary: n st)
  case 0
  then show ?case by simp
next
  case (Suc j)
  from Suc.prems obtain n1 st1 where
    r: "loop_round m c n st = Some (n1, st1)" and l: "loop_rounds m c j n1 st1 = Some (n', st')"
    by (auto split: option.splits)
  from loop_round_run [OF r] Suc.IH [OF l] show ?case by simp
qed

lemma loop_round_counter:
  assumes "loop_round m c n (s, w) = Some (n', (s', w'))"
    and tp: "trim_paths m = Surveyor_trim_paths"
  shows "current_tick s' = current_tick s + 1"
proof -
  have m: "m\<lparr>trim_paths := Surveyor_trim_paths\<rparr> = m"
    by (simp add: tp [symmetric])
  from assms(1) show ?thesis
  proof (rule loop_round_SomeD)
    fix w0 r1 st1 r2 s2 w2 u w3
    assume t: "tick m c (s, w0) = (Inr r1, st1)"
      and tr: "trim m st1 = (Inr r2, (s2, w2))"
      and st': "(s', w') = (untrim s2, w3)"
    obtain s1 w1 where st1: "st1 = (s1, w1)" by (cases st1)
    from tick_counter [OF t [unfolded st1]] have "current_tick s1 = current_tick s + 1" by simp
    moreover from trim_base_policy_frame(3) [of m s1 w1 "Inr r2" s2 w2] tr st1 m
    have "current_tick s2 = current_tick s1" by simp
    ultimately show ?thesis using st' by (simp add: untrim_frame)
  qed
qed

lemma loop_rounds_counter:
  assumes "loop_rounds m c j n (s, w) = Some (n', (s', w'))"
    and tp: "trim_paths m = Surveyor_trim_paths"
  shows "current_tick s' = current_tick s + int j"
  using assms(1)
proof (induction j arbitrary: n s w)
  case 0
  then show ?case by simp
next
  case (Suc j)
  from Suc.prems obtain n1 s1 w1 where
    r: "loop_round m c n (s, w) = Some (n1, (s1, w1))"
    and l: "loop_rounds m c j n1 (s1, w1) = Some (n', (s', w'))"
    by (auto split: option.splits)
  from loop_round_counter [OF r tp] Suc.IH [OF l] show ?case by simp
qed

subsection \<open>Faults\<close>

lemma tick_loop_fault:
  "(\<exists>st. tick_loop m c ps acc (s, w) = (Inl x, st)) \<longleftrightarrow> first_fault (tick_path m) ps w = Some x"
proof (induction ps arbitrary: acc s w)
  case Nil
  show ?case by simp
next
  case (Cons p ps)
  obtain res w1 where pw: "tick_path m p w = (res, w1)" by (metis surj_pair)
  show ?case
  proof (cases res)
    case (Inl y)
    with pw show ?thesis by auto
  next
    case (Inr succs)
    define s2 where "s2 = (let s1 = (if length (path_errored c p w1) > 0
                                     then s\<lparr>errored := errored s @ [p]\<rparr> else s)
                           in if length succs = 0
                              then s1\<lparr>deadended := deadended s1 @ [p]\<rparr> else s1)"
    have "tick_loop m c (p # ps) acc (s, w) = tick_loop m c ps (acc @ succs) (s2, w1)"
      by (simp add: pw Inr s2_def Let_def)
    moreover have "first_fault (tick_path m) (p # ps) w = first_fault (tick_path m) ps w1"
      by (simp add: pw Inr)
    ultimately show ?thesis using Cons.IH [of "acc @ succs" s2 w1] by simp
  qed
qed

lemma tick_fault:
  "(\<exists>st. tick m c (s, w) = (Inl x, st)) \<longleftrightarrow> first_fault (tick_path m) (active s) w = Some x"
proof -
  obtain r0 st0 where l: "tick_loop m c (active s) [] (s, w) = (r0, st0)" by (metis surj_pair)
  have "(\<exists>st. tick m c (s, w) = (Inl x, st)) \<longleftrightarrow> r0 = Inl x"
    using l by (cases r0) (auto simp: tick_def Let_def split: prod.splits)
  also have "\<dots> \<longleftrightarrow> (\<exists>st. tick_loop m c (active s) [] (s, w) = (Inl x, st))"
    using l by simp
  finally show ?thesis by (simp only: tick_loop_fault)
qed

lemma first_fault_None:
  "(\<And>p w1. \<exists>v w2. h p w1 = (Inr v, w2)) \<Longrightarrow> first_fault h ps w = None"
proof (induction ps arbitrary: w)
  case Nil
  show ?case by simp
next
  case (Cons p ps)
  from Cons.prems [of p w] obtain v w2 where "h p w = (Inr v, w2)" by blast
  then show ?case using Cons.IH [OF Cons.prems] by simp
qed

lemma tick_returns:
  assumes "\<And>p w1. \<exists>ss w2. tick_path m p w1 = (Inr ss, w2)"
  shows "\<exists>s' w'. tick m c (s, w) = (Inr s', (s', w'))"
proof -
  obtain r s' w' where t: "tick m c (s, w) = (r, (s', w'))" by (metis surj_pair)
  have n: "first_fault (tick_path m) (active s) w = None"
    using assms by (rule first_fault_None)
  show ?thesis
  proof (cases r)
    case (Inl x)
    with t have "\<exists>st. tick m c (s, w) = (Inl x, st)" by blast
    then have "first_fault (tick_path m) (active s) w = Some x" by (rule tick_fault [THEN iffD1])
    with n show ?thesis by simp
  next
    case (Inr v)
    with t tick_result(1) [of m c s w v s' w'] show ?thesis by simp
  qed
qed

lemma trim_filter_fault:
  "(\<exists>w'. trim_filter m ps w = (Inl x, w')) \<longleftrightarrow> first_fault (trim_path m) ps w = Some x"
proof (induction ps arbitrary: w)
  case Nil
  show ?case by simp
next
  case (Cons p ps)
  obtain res w1 where pw: "trim_path m p w = (res, w1)" by (metis surj_pair)
  show ?case
  proof (cases res)
    case (Inl y)
    with pw show ?thesis by auto
  next
    case (Inr b)
    obtain fr w2 where f: "trim_filter m ps w1 = (fr, w2)" by (metis surj_pair)
    have "(\<exists>w'. trim_filter m (p # ps) w = (Inl x, w')) \<longleftrightarrow> fr = Inl x"
      by (cases fr) (auto simp: pw Inr f)
    also have "\<dots> \<longleftrightarrow> (\<exists>w'. trim_filter m ps w1 = (Inl x, w'))"
      by (simp add: f)
    finally show ?thesis by (simp add: Cons.IH pw Inr)
  qed
qed

lemma trim_fault:
  "(\<exists>st. trim m (s, w) = (Inl x, st)) \<longleftrightarrow>
     (first_fault (trim_path m) (active s) w = Some x
      \<or> (\<exists>kept w'. trim_filter m (active s) w = (Inr kept, w')
            \<and> (\<exists>st. trim_paths m kept (s, w') = (Inl x, st))))"
proof -
  obtain fr w1 where f: "trim_filter m (active s) w = (fr, w1)" by (metis surj_pair)
  show ?thesis
  proof (cases fr)
    case (Inl y)
    have "(\<exists>st. trim m (s, w) = (Inl x, st)) \<longleftrightarrow> y = x"
      by (auto simp: trim_def f Inl)
    moreover have "first_fault (trim_path m) (active s) w = Some x \<longleftrightarrow> y = x"
      using trim_filter_fault [of m "active s" w x] trim_filter_fault [of m "active s" w y]
      by (auto simp: f Inl)
    ultimately show ?thesis by (simp add: f Inl)
  next
    case (Inr kept)
    have n: "first_fault (trim_path m) (active s) w \<noteq> Some x"
      using trim_filter_fault [of m "active s" w x] by (simp add: f Inr)
    obtain pr st2 where p: "trim_paths m kept (s, w1) = (pr, st2)" by (metis surj_pair)
    have "(\<exists>st. trim m (s, w) = (Inl x, st)) \<longleftrightarrow> pr = Inl x"
      by (cases pr) (auto simp: trim_def f Inr p split: prod.splits)
    then show ?thesis by (simp add: n f Inr p)
  qed
qed

text \<open>
  Claim C9. \<^verbatim>\<open>tick\<close> raises no fault of its own: when the step function returns on every
  path in every world, \<^verbatim>\<open>tick\<close> returns, whatever error records the paths hold. \<^verbatim>\<open>tick\<close> raises
  \<open>x\<close> exactly when \<open>x\<close> is the first fault the step function raises on the active paths;
  \<^verbatim>\<open>trim\<close> raises \<open>x\<close> exactly when \<open>x\<close> is the first fault of the admission filter, or the
  filter returns and the bulk policy raises \<open>x\<close>. In whatever round of \<^verbatim>\<open>run\<close> it happens,
  after any number \<open>j\<close> of rounds that came back to the loop test, the fault of the \<^verbatim>\<open>done\<close>
  predicate, of \<^verbatim>\<open>tick\<close> and of \<^verbatim>\<open>trim\<close> is the fault of \<^verbatim>\<open>run\<close>, as it was raised and with the
  state in which it was raised.
\<close>

theorem hook_faults_propagate:
  "((\<forall>p w1. \<exists>ss w2. tick_path m p w1 = (Inr ss, w2)) \<longrightarrow>
      (\<exists>s' w'. tick m c (s, w) = (Inr s', (s', w'))))
   \<and> ((\<exists>st. tick m c (s, w) = (Inl x, st)) \<longleftrightarrow>
        first_fault (tick_path m) (active s) w = Some x)
   \<and> ((\<exists>st. trim m (s, w) = (Inl x, st)) \<longleftrightarrow>
        (first_fault (trim_path m) (active s) w = Some x
         \<or> (\<exists>kept w'. trim_filter m (active s) w = (Inr kept, w')
               \<and> (\<exists>st. trim_paths m kept (s, w') = (Inl x, st)))))
   \<and> (\<forall>j n1 s1 w1 w0.
         loop_rounds m c j n (s, w) = Some (n1, (s1, w1))
         \<and> is_done m s1 w1 = (Inl x, w0) \<longrightarrow>
         run m c n (s, w) = Some (Inl x, (s1, w0)))
   \<and> (\<forall>j n1 s1 w1 w0 st1.
         loop_rounds m c j n (s, w) = Some (n1, (s1, w1))
         \<and> is_done m s1 w1 = (Inr False, w0)
         \<and> (case n1 of None \<Rightarrow> True | Some k \<Rightarrow> k > 0)
         \<and> tick m c (s1, w0) = (Inl x, st1) \<longrightarrow>
         run m c n (s, w) = Some (Inl x, st1))
   \<and> (\<forall>j n1 s1 w1 w0 r1 st1 st2.
         loop_rounds m c j n (s, w) = Some (n1, (s1, w1))
         \<and> is_done m s1 w1 = (Inr False, w0)
         \<and> (case n1 of None \<Rightarrow> True | Some k \<Rightarrow> k > 0)
         \<and> tick m c (s1, w0) = (Inr r1, st1) \<and> trim m st1 = (Inl x, st2) \<longrightarrow>
         run m c n (s, w) = Some (Inl x, st2))"
proof (intro conjI allI impI)
  assume "\<forall>p w1. \<exists>ss w2. tick_path m p w1 = (Inr ss, w2)"
  then show "\<exists>s' w'. tick m c (s, w) = (Inr s', (s', w'))"
    by (intro tick_returns) blast
next
  show "(\<exists>st. tick m c (s, w) = (Inl x, st)) \<longleftrightarrow>
        first_fault (tick_path m) (active s) w = Some x"
    by (rule tick_fault)
next
  show "(\<exists>st. trim m (s, w) = (Inl x, st)) \<longleftrightarrow>
        (first_fault (trim_path m) (active s) w = Some x
         \<or> (\<exists>kept w'. trim_filter m (active s) w = (Inr kept, w')
               \<and> (\<exists>st. trim_paths m kept (s, w') = (Inl x, st))))"
    by (rule trim_fault)
next
  fix j n1 s1 w1 w0
  assume h: "loop_rounds m c j n (s, w) = Some (n1, (s1, w1))
         \<and> is_done m s1 w1 = (Inl x, w0)"
  then have "run m c n (s, w) = run m c n1 (s1, w1)"
    using loop_rounds_run [of m c j n "(s, w)" n1 "(s1, w1)"] by simp
  also from h have "\<dots> = Some (Inl x, (s1, w0))"
    by (subst run.simps) simp
  finally show "run m c n (s, w) = Some (Inl x, (s1, w0))" .
next
  fix j n1 s1 w1 w0 st1
  assume h: "loop_rounds m c j n (s, w) = Some (n1, (s1, w1))
         \<and> is_done m s1 w1 = (Inr False, w0)
         \<and> (case n1 of None \<Rightarrow> True | Some k \<Rightarrow> k > 0)
         \<and> tick m c (s1, w0) = (Inl x, st1)"
  then have "run m c n (s, w) = run m c n1 (s1, w1)"
    using loop_rounds_run [of m c j n "(s, w)" n1 "(s1, w1)"] by simp
  also from h have "\<dots> = Some (Inl x, st1)"
    by (subst run.simps) simp
  finally show "run m c n (s, w) = Some (Inl x, st1)" .
next
  fix j n1 s1 w1 w0 r1 st1 st2
  assume h: "loop_rounds m c j n (s, w) = Some (n1, (s1, w1))
         \<and> is_done m s1 w1 = (Inr False, w0)
         \<and> (case n1 of None \<Rightarrow> True | Some k \<Rightarrow> k > 0)
         \<and> tick m c (s1, w0) = (Inr r1, st1) \<and> trim m st1 = (Inl x, st2)"
  then have "run m c n (s, w) = run m c n1 (s1, w1)"
    using loop_rounds_run [of m c j n "(s, w)" n1 "(s1, w1)"] by simp
  also from h have "\<dots> = Some (Inl x, st2)"
    by (subst run.simps) simp
  finally show "run m c n (s, w) = Some (Inl x, st2)" .
qed

text \<open>
  A step function that always returns; the step function of the instance, under which
  path 5 faults after path 4 was stepped and recorded as errored; a filter, a bulk policy
  and a \<^verbatim>\<open>done\<close> predicate that fault; and a step function that returns in the first round
  and faults in the second.
\<close>

theorem hook_faults_propagate_witness:
  "tick ((Surveyor_methods demo)\<lparr>tick_path := (\<lambda>p w. (Inr [], w))\<rparr>) demo
       (demo_surveyor 10 [1] [], demo_world) =
     (Inr ((demo_surveyor 10 [] [])\<lparr>deadended := [1], current_tick := 1\<rparr>),
      ((demo_surveyor 10 [] [])\<lparr>deadended := [1], current_tick := 1\<rparr>, demo_world))
   \<and> tick (Surveyor_methods demo) demo (demo_surveyor 10 [4, 5, 2] [], demo_world) =
       (Inl ''fault'', ((demo_surveyor 10 [4, 5, 2] [])\<lparr>errored := [4]\<rparr>, demo_world\<lparr>heap := [4]\<rparr>))
   \<and> first_fault (tick_path (Surveyor_methods demo)) [4, 5, 2] demo_world = Some ''fault''
   \<and> run (Surveyor_methods demo) demo None (demo_surveyor 10 [4, 5, 2] [], demo_world) =
       Some (Inl ''fault'',
             ((demo_surveyor 10 [4, 5, 2] [])\<lparr>errored := [4]\<rparr>, demo_world\<lparr>heap := [4]\<rparr>))
   \<and> trim ((Surveyor_methods demo)\<lparr>trim_path := (\<lambda>p w. (Inl ''filter'', w))\<rparr>)
         (demo_surveyor 10 [1] [], demo_world) =
       (Inl ''filter'', (demo_surveyor 10 [1] [], demo_world))
   \<and> trim ((Surveyor_methods demo)\<lparr>trim_paths := (\<lambda>ps st. (Inl ''policy'', st))\<rparr>)
         (demo_surveyor 10 [1] [], demo_world) =
       (Inl ''policy'', (demo_surveyor 10 [1] [], demo_world))
   \<and> run ((Surveyor_methods demo)\<lparr>trim_path := (\<lambda>p w. (Inl ''filter'', w))\<rparr>) demo None
         (demo_surveyor 10 [1] [], demo_world) =
       Some (Inl ''filter'', ((demo_surveyor 10 [7] [])\<lparr>current_tick := 1\<rparr>, demo_world))
   \<and> run ((Surveyor_methods demo)\<lparr>is_done := (\<lambda>s w. (Inl ''done'', w))\<rparr>) demo None
         (demo_surveyor 10 [1] [], demo_world) =
       Some (Inl ''done'', (demo_surveyor 10 [1] [], demo_world))
   \<and> loop_rounds ((Surveyor_methods demo)
                  \<lparr>tick_path := (\<lambda>p w. if p = 0 then (Inr [1], w) else (Inl ''late'', w))\<rparr>)
         demo (Suc 0) None (demo_surveyor 10 [0] [], demo_world) =
       Some (None, ((demo_surveyor 10 [1] [])\<lparr>current_tick := 1\<rparr>, demo_world))
   \<and> run ((Surveyor_methods demo)
              \<lparr>tick_path := (\<lambda>p w. if p = 0 then (Inr [1], w) else (Inl ''late'', w))\<rparr>)
         demo None (demo_surveyor 10 [0] [], demo_world) =
       Some (Inl ''late'', ((demo_surveyor 10 [1] [])\<lparr>current_tick := 1\<rparr>, demo_world))"
proof -
  have t: "tick (Surveyor_methods demo) demo (demo_surveyor 10 [4, 5, 2] [], demo_world) =
       (Inl ''fault'', ((demo_surveyor 10 [4, 5, 2] [])\<lparr>errored := [4]\<rparr>, demo_world\<lparr>heap := [4]\<rparr>))"
    by (simp add: demo_eval)
  have d: "is_done (Surveyor_methods demo) (demo_surveyor 10 [4, 5, 2] []) demo_world =
       (Inr False, demo_world)"
    by (simp add: demo_eval)
  have a: "\<forall>p w1. \<exists>ss w2.
       tick_path ((Surveyor_methods demo)\<lparr>tick_path := (\<lambda>p w. (Inr [], w))\<rparr>) p w1 = (Inr ss, w2)"
    by simp
  have f: "trim ((Surveyor_methods demo)\<lparr>trim_path := (\<lambda>p w. (Inl ''filter'', w))\<rparr>)
         (demo_surveyor 10 [1] [], demo_world) =
       (Inl ''filter'', (demo_surveyor 10 [1] [], demo_world))"
    by (simp add: demo_eval)
  have p: "trim ((Surveyor_methods demo)\<lparr>trim_paths := (\<lambda>ps st. (Inl ''policy'', st))\<rparr>)
         (demo_surveyor 10 [1] [], demo_world) =
       (Inl ''policy'', (demo_surveyor 10 [1] [], demo_world))"
    by (simp add: demo_eval)
  have rf: "run ((Surveyor_methods demo)\<lparr>trim_path := (\<lambda>p w. (Inl ''filter'', w))\<rparr>) demo None
         (demo_surveyor 10 [1] [], demo_world) =
       Some (Inl ''filter'', ((demo_surveyor 10 [7] [])\<lparr>current_tick := 1\<rparr>, demo_world))"
    by (subst run.simps) (simp add: demo_eval)
  have rd: "run ((Surveyor_methods demo)\<lparr>is_done := (\<lambda>s w. (Inl ''done'', w))\<rparr>) demo None
         (demo_surveyor 10 [1] [], demo_world) =
       Some (Inl ''done'', (demo_surveyor 10 [1] [], demo_world))"
    by (subst run.simps) (simp add: demo_eval)

  let ?ml = "(Surveyor_methods demo)
                  \<lparr>tick_path := (\<lambda>p w. if p = 0 then (Inr [1], w) else (Inl ''late'', w))\<rparr>"
  let ?l0 = "demo_surveyor 10 [0] []"
  let ?l1 = "(demo_surveyor 10 [1] [])\<lparr>current_tick := 1\<rparr>"
  have ll: "loop_rounds ?ml demo (Suc 0) None (?l0, demo_world) = Some (None, (?l1, demo_world))"
    by (simp add: loop_round_def demo_eval untrim_def)
  have dl: "is_done ?ml ?l1 demo_world = (Inr False, demo_world)"
    by (simp add: demo_eval)
  have bl: "case (None :: int option) of None \<Rightarrow> True | Some k \<Rightarrow> k > 0"
    by simp
  have tl: "tick ?ml demo (?l1, demo_world) = (Inl ''late'', (?l1, demo_world))"
    by (simp add: demo_eval)
  note late = hook_faults_propagate [of ?ml demo ?l0 demo_world "''late''" None,
      THEN conjunct2, THEN conjunct2, THEN conjunct2, THEN conjunct2, THEN conjunct1,
      rule_format, OF conjI [OF ll conjI [OF dl conjI [OF bl tl]]]]
  have first: "tick ((Surveyor_methods demo)\<lparr>tick_path := (\<lambda>p w. (Inr [], w))\<rparr>) demo
       (demo_surveyor 10 [1] [], demo_world) =
     (Inr ((demo_surveyor 10 [] [])\<lparr>deadended := [1], current_tick := 1\<rparr>),
      ((demo_surveyor 10 [] [])\<lparr>deadended := [1], current_tick := 1\<rparr>, demo_world))"
    by (simp add: demo_eval)
  have ff: "first_fault (tick_path (Surveyor_methods demo)) [4, 5, 2] demo_world = Some ''fault''"
    by (simp add: demo_eval)
  have n: "case (None :: int option) of None \<Rightarrow> True | Some k \<Rightarrow> k > 0"
    by simp
  have l0: "loop_rounds (Surveyor_methods demo) demo 0 None (demo_surveyor 10 [4, 5, 2] [], demo_world) =
      Some (None, (demo_surveyor 10 [4, 5, 2] [], demo_world))"
    by simp
  note entry = hook_faults_propagate [of "Surveyor_methods demo" demo "demo_surveyor 10 [4, 5, 2] []"
      demo_world "''fault''" None,
      THEN conjunct2, THEN conjunct2, THEN conjunct2, THEN conjunct2, THEN conjunct1,
      rule_format, OF conjI [OF l0 conjI [OF d conjI [OF n t]]]]
  show ?thesis
    by (intro conjI first t ff entry f p rf rd ll late)
qed

subsection \<open>Stopping and resuming\<close>

lemma run_counter_mono:
  assumes r: "run m c n st = Some y"
  shows "trim_paths m = Surveyor_trim_paths \<longrightarrow>
           current_tick (fst st) \<le> current_tick (fst (snd y))"
proof (rule run.raw_induct [where P = "\<lambda>m c n st y. trim_paths m = Surveyor_trim_paths \<longrightarrow>
           current_tick (fst st) \<le> current_tick (fst (snd y))", OF _ r], goal_cases)
  case (1 f m c n st y)
  obtain s w where st: "st = (s, w)" by (cases st)
  show ?case
  proof
    assume tp: "trim_paths m = Surveyor_trim_paths"
    have m: "m\<lparr>trim_paths := Surveyor_trim_paths\<rparr> = m"
      by (simp add: tp [symmetric])
    obtain dr w0 where d: "is_done m s w = (dr, w0)" by (metis surj_pair)
    show "current_tick (fst st) \<le> current_tick (fst (snd y))"
    proof (cases dr)
      case (Inl x)
      with 1(2) d st show ?thesis by auto
    next
      case (Inr b)
      show ?thesis
      proof (cases "\<not> b \<and> (case n of None \<Rightarrow> True | Some k \<Rightarrow> k > 0)")
        case False
        with 1(2) d st Inr show ?thesis by (auto simp: if_not_P [OF False])
      next
        case True
        obtain tr s1 w1 where t: "tick m c (s, w0) = (tr, (s1, w1))" by (metis surj_pair)
        note tc = tick_counter [OF t]
        show ?thesis
        proof (cases tr)
          case (Inl x)
          with 1(2) d st Inr True t tc show ?thesis by auto
        next
          case r1: (Inr r1)
          with tc have c1: "current_tick s1 = current_tick s + 1" by simp
          obtain mr s2 w2 where tm: "trim m (s1, w1) = (mr, (s2, w2))" by (metis surj_pair)
          from trim_base_policy_frame(3) [of m s1 w1 mr s2 w2] tm m
          have c2: "current_tick s2 = current_tick s1" by simp
          show ?thesis
          proof (cases mr)
            case (Inl x)
            with 1(2) d st Inr True t r1 tm c1 c2 show ?thesis by auto
          next
            case r2: (Inr r2)
            show ?thesis
            proof (cases "STOP_RUNS w2")
              case stop: True
              with 1(2) d st Inr True t r1 tm r2 c1 c2 show ?thesis
                by (auto simp: Let_def untrim_frame)
            next
              case nostop: False
              obtain pr w3 where
                p: "(if PAUSE_RUNS w2 then set_trace c (untrim s2) w2 else (Inr (), w2)) = (pr, w3)"
                by (metis surj_pair)
              show ?thesis
              proof (cases pr)
                case (Inl x)
                with 1(2) d st Inr True t r1 tm r2 nostop p have "y = (Inl x, (untrim s2, w3))"
                  by (simp add: Let_def)
                with c1 c2 st show ?thesis by (simp add: untrim_frame)
              next
                case pr: (Inr u)
                with 1(2) d st Inr True t r1 tm r2 nostop p
                have "f m c (case n of None \<Rightarrow> None | Some k \<Rightarrow> Some (k - 1)) (untrim s2, w3) = Some y"
                  by (simp add: Let_def)
                from 1(1) [OF this] tp
                have "current_tick (untrim s2) \<le> current_tick (fst (snd y))" by simp
                with c1 c2 st show ?thesis by (simp add: untrim_frame)
              qed
            qed
          qed
        qed
      qed
    qed
  qed
qed

text \<open>
  Claim C7. \<^verbatim>\<open>run\<close> reads \<^verbatim>\<open>STOP_RUNS\<close> in one place, after \<^verbatim>\<open>untrim\<close>. Take any round of
  \<^verbatim>\<open>run\<close>, after \<open>j\<close> rounds that came back to the loop test, in which \<^verbatim>\<open>done\<close> is false, the
  budget is not spent and \<^verbatim>\<open>tick\<close> and \<^verbatim>\<open>trim\<close> return, whatever the flags are before and
  during the round.

  \<^item> When the flag is set after the round, \<^verbatim>\<open>run\<close> returns there: the surveyor returned is
    the one the whole round left (\<^verbatim>\<open>tick\<close>, \<^verbatim>\<open>trim\<close>, \<^verbatim>\<open>untrim\<close>), with its four sets and its
    round counter, and the world is the one \<^verbatim>\<open>trim\<close> left: no hook and no debugger is called
    any more.
  \<^item> When the flag is not set after the round (and the debugger, if it is called, returns),
    \<^verbatim>\<open>run\<close> does not return there: it goes on with the next round and one unit less of
    budget. So it is the flag that makes \<^verbatim>\<open>run\<close> halt.
  \<^item> \<^verbatim>\<open>result_analyses\<close> clears the flag and nothing else.
  \<^item> Stopping and resuming loses nothing: if the same loop, in a world \<open>wc\<close> where no stop
    is asked for, goes through the round and comes to the same surveyor, in the world of the
    stopped run with the flag cleared, then the stopped \<^verbatim>\<open>run\<close>, followed by clearing the flag
    and by a new call of \<^verbatim>\<open>run\<close> on what was returned with what is left of the budget, gives
    what the \<^verbatim>\<open>run\<close> that was never stopped gives.
  \<^item> The new call carries out every round that comes back to the loop test from the state
    the stop left, and (with the bulk policy of the base class, which keeps the counter) the
    round counter goes on from that of the stopped round: after \<open>k\<close> more rounds it is \<open>k\<close>
    more, and at the stop it is \<open>j + 1\<close> more than at the start.
\<close>

theorem stop_and_resume:
  assumes "loop_rounds m c j n (s, w) = Some (n1, (s1, w1))"
    and "is_done m s1 w1 = (Inr False, w0)"
    and "case n1 of None \<Rightarrow> True | Some k \<Rightarrow> k > 0"
    and "tick m c (s1, w0) = (Inr r1, st1)"
    and "trim m st1 = (Inr r2, (s2, w2))"
  shows "(STOP_RUNS w2 \<longrightarrow> run m c n (s, w) = Some (Inr (untrim s2), (untrim s2, w2)))
       \<and> (\<not> STOP_RUNS w2 \<longrightarrow>
            (\<forall>u w3. (if PAUSE_RUNS w2 then set_trace c (untrim s2) w2 else (Inr (), w2)) = (Inr u, w3)
               \<longrightarrow> run m c n (s, w) =
                     run m c (case n1 of None \<Rightarrow> None | Some k \<Rightarrow> Some (k - 1)) (untrim s2, w3)))
       \<and> result_analyses w2 = w2\<lparr>STOP_RUNS := False\<rparr>
       \<and> (STOP_RUNS w2 \<longrightarrow>
            (\<forall>wc. loop_rounds m c (Suc j) n (s, wc) =
                    Some (case n1 of None \<Rightarrow> None | Some k \<Rightarrow> Some (k - 1),
                          (untrim s2, result_analyses w2))
               \<longrightarrow> (case run m c n (s, w) of
                       None \<Rightarrow> None
                     | Some (r, (s', w')) \<Rightarrow>
                         run m c (case n1 of None \<Rightarrow> None | Some k \<Rightarrow> Some (k - 1))
                           (s', result_analyses w'))
                    = run m c n (s, wc)))
       \<and> (\<forall>n' k n2 s4 w4.
             loop_rounds m c k n' (untrim s2, result_analyses w2) = Some (n2, (s4, w4)) \<longrightarrow>
             run m c n' (untrim s2, result_analyses w2) = run m c n2 (s4, w4)
             \<and> (trim_paths m = Surveyor_trim_paths \<longrightarrow>
                  current_tick s4 = current_tick (untrim s2) + int k))
       \<and> (trim_paths m = Surveyor_trim_paths \<longrightarrow>
             current_tick (untrim s2) = current_tick s + int j + 1
             \<and> (\<forall>(n' :: int option) r s' w'.
                   run m c n' (untrim s2, result_analyses w2) = Some (r, (s', w')) \<longrightarrow>
                   current_tick (untrim s2) \<le> current_tick s'))"
proof -
  note here = loop_rounds_run [OF assms(1)]
  have stop: "run m c n (s, w) = Some (Inr (untrim s2), (untrim s2, w2))" if "STOP_RUNS w2"
  proof -
    have "run m c n1 (s1, w1) = Some (Inr (untrim s2), (untrim s2, w2))"
      using assms(2-5) that by (subst run.simps) (simp add: Let_def)
    with here show ?thesis by simp
  qed
  have go: "run m c n (s, w) =
              run m c (case n1 of None \<Rightarrow> None | Some k \<Rightarrow> Some (k - 1)) (untrim s2, w3)"
    if "\<not> STOP_RUNS w2"
      and "(if PAUSE_RUNS w2 then set_trace c (untrim s2) w2 else (Inr (), w2)) = (Inr u, w3)"
    for u w3
  proof -
    have "run m c n1 (s1, w1) =
            run m c (case n1 of None \<Rightarrow> None | Some k \<Rightarrow> Some (k - 1)) (untrim s2, w3)"
      using assms(2-5) that by (subst run.simps) (simp add: Let_def)
    with here show ?thesis by simp
  qed
  have same: "(case run m c n (s, w) of
                       None \<Rightarrow> None
                     | Some (r, (s', w')) \<Rightarrow>
                         run m c (case n1 of None \<Rightarrow> None | Some k \<Rightarrow> Some (k - 1))
                           (s', result_analyses w'))
                    = run m c n (s, wc)"
    if "STOP_RUNS w2"
      and "loop_rounds m c (Suc j) n (s, wc) =
                    Some (case n1 of None \<Rightarrow> None | Some k \<Rightarrow> Some (k - 1),
                          (untrim s2, result_analyses w2))"
    for wc
    using loop_rounds_run [OF that(2)] by (simp add: stop [OF that(1)])
  have counter: "current_tick (untrim s2) = current_tick s + int j + 1"
    if tp: "trim_paths m = Surveyor_trim_paths"
  proof -
    have m: "m\<lparr>trim_paths := Surveyor_trim_paths\<rparr> = m"
      by (simp add: tp [symmetric])
    obtain s1' w1' where st1: "st1 = (s1', w1')" by (cases st1)
    from loop_rounds_counter [OF assms(1) tp]
    have "current_tick s1 = current_tick s + int j" .
    moreover from tick_counter [OF assms(4) [unfolded st1]]
    have "current_tick s1' = current_tick s1 + 1" by simp
    moreover from trim_base_policy_frame(3) [of m s1' w1' "Inr r2" s2 w2] assms(5) st1 m
    have "current_tick s2 = current_tick s1'" by simp
    ultimately show ?thesis by (simp add: untrim_frame)
  qed
  have later: "current_tick (untrim s2) \<le> current_tick s'"
    if "trim_paths m = Surveyor_trim_paths"
      and "run m c n' (untrim s2, result_analyses w2) = Some (r, (s', w'))"
    for n' r s' w'
    using run_counter_mono [OF that(2)] that(1) by simp
  have resumed: "run m c n' (untrim s2, result_analyses w2) = run m c n2 (s4, w4)
             \<and> (trim_paths m = Surveyor_trim_paths \<longrightarrow>
                  current_tick s4 = current_tick (untrim s2) + int k)"
    if "loop_rounds m c k n' (untrim s2, result_analyses w2) = Some (n2, (s4, w4))"
    for n' k n2 s4 w4
    using loop_rounds_run [OF that] loop_rounds_counter [OF that] by simp
  have clear: "result_analyses w2 = w2\<lparr>STOP_RUNS := False\<rparr>"
    by (simp add: result_analyses_def)
  show ?thesis
    using stop go same counter later resumed clear by blast
qed

text \<open>
  The scenario of the specification, with the stop flag set before \<^verbatim>\<open>run\<close> is called: limit
  2, one path that forks into three, budget 2. The first call carries out one whole round and
  stops; after \<^verbatim>\<open>result_analyses\<close> a second call with budget 1 carries out the second round
  from the sets the first one left, and ends where the call with budget 2 and no stop ends.
  Then a stop request that arrives while path 11 is stepped, in the second round: the round
  is carried out to its end, \<^verbatim>\<open>run\<close> returns, and a new call goes on with the third round.
\<close>

theorem stop_and_resume_witness:
  "run (Surveyor_methods demo) demo (Some 2) (demo_surveyor 2 [0] [], stop_analyses demo_world) =
     Some (Inr ((demo_surveyor 2 [1, 2] [3])\<lparr>current_tick := 1\<rparr>),
           ((demo_surveyor 2 [1, 2] [3])\<lparr>current_tick := 1\<rparr>, stop_analyses demo_world))
   \<and> result_analyses (stop_analyses demo_world) = demo_world
   \<and> run (Surveyor_methods demo) demo (Some 1)
         ((demo_surveyor 2 [1, 2] [3])\<lparr>current_tick := 1\<rparr>, demo_world) =
       Some (Inr ((demo_surveyor 2 [7, 3] [])\<lparr>deadended := [2], errored := [2], current_tick := 2\<rparr>),
             ((demo_surveyor 2 [7, 3] [])\<lparr>deadended := [2], errored := [2], current_tick := 2\<rparr>,
              demo_world\<lparr>heap := [2]\<rparr>))
   \<and> run (Surveyor_methods demo) demo (Some 2) (demo_surveyor 2 [0] [], demo_world) =
       Some (Inr ((demo_surveyor 2 [7, 3] [])\<lparr>deadended := [2], errored := [2], current_tick := 2\<rparr>),
             ((demo_surveyor 2 [7, 3] [])\<lparr>deadended := [2], errored := [2], current_tick := 2\<rparr>,
              demo_world\<lparr>heap := [2]\<rparr>))
   \<and> run ((Surveyor_methods demo)
              \<lparr>tick_path := (\<lambda>p w. (Inr [p + 1], if p = 11 then stop_analyses w else w))\<rparr>)
         demo None (demo_surveyor 10 [10] [], demo_world) =
       Some (Inr ((demo_surveyor 10 [12] [])\<lparr>current_tick := 2\<rparr>),
             ((demo_surveyor 10 [12] [])\<lparr>current_tick := 2\<rparr>, stop_analyses demo_world))
   \<and> run ((Surveyor_methods demo)
              \<lparr>tick_path := (\<lambda>p w. (Inr [p + 1], if p = 11 then stop_analyses w else w))\<rparr>)
         demo (Some 1) ((demo_surveyor 10 [12] [])\<lparr>current_tick := 2\<rparr>, demo_world) =
       Some (Inr ((demo_surveyor 10 [13] [])\<lparr>current_tick := 3\<rparr>),
             ((demo_surveyor 10 [13] [])\<lparr>current_tick := 3\<rparr>, demo_world))"
proof -
  let ?m = "Surveyor_methods demo"
  let ?s = "demo_surveyor 2 [0] []"
  let ?w = "stop_analyses demo_world"
  let ?s1 = "(demo_surveyor 2 [1, 2, 3] [])\<lparr>current_tick := 1\<rparr>"
  let ?s2 = "(demo_surveyor 2 [1, 2] [3])\<lparr>current_tick := 1\<rparr>"
  let ?s3 = "(demo_surveyor 2 [7, 3] [])\<lparr>deadended := [2], errored := [2], current_tick := 2\<rparr>"
  have st: "STOP_RUNS ?w"
    by (simp add: stop_analyses_def)
  have c: "result_analyses ?w = demo_world"
    by (simp add: result_analyses_def stop_analyses_def demo_world_def)
  have l0: "loop_rounds ?m demo 0 (Some 2) (?s, ?w) = Some (Some 2, (?s, ?w))"
    by simp
  have d: "is_done ?m ?s ?w = (Inr False, ?w)"
    by (simp add: demo_eval)
  have b: "case Some (2 :: int) of None \<Rightarrow> True | Some k \<Rightarrow> k > 0"
    by simp
  have t: "tick ?m demo (?s, ?w) = (Inr ?s1, (?s1, ?w))"
    by (simp add: demo_eval stop_analyses_def)
  have tr: "trim ?m (?s1, ?w) = (Inr (), (?s2, ?w))"
    by (simp add: demo_eval stop_analyses_def)
  have u: "untrim ?s2 = ?s2"
    by (simp add: untrim_cases demo_surveyor_def)
  note th = stop_and_resume [OF l0 d b t tr]
  note stopped = th [THEN conjunct1, rule_format, OF st, unfolded u]
  have l1: "loop_rounds ?m demo (Suc 0) (Some 2) (?s, demo_world) =
      Some (case Some (2 :: int) of None \<Rightarrow> None | Some k \<Rightarrow> Some (k - 1),
            (untrim ?s2, result_analyses ?w))"
    unfolding u c by (simp add: loop_round_def demo_eval untrim_def)
  note same = th [THEN conjunct2, THEN conjunct2, THEN conjunct2, THEN conjunct1, rule_format,
      OF st l1]
  have resumed: "run ?m demo (Some 1) (?s2, demo_world) = Some (Inr ?s3, (?s3, demo_world\<lparr>heap := [2]\<rparr>))"
    apply (subst run.simps)
    apply (simp add: demo_eval untrim_def)
    apply (subst run.simps)
    apply (simp add: demo_eval untrim_def)
    done
  have k: "(case Some (2 :: int) of None \<Rightarrow> None | Some k \<Rightarrow> Some (k - 1)) = Some 1"
    by simp
  have k2: "(2 :: int) - 1 = 1"
    by simp
  from same have "run ?m demo (Some 1) (?s2, demo_world) = run ?m demo (Some 2) (?s, demo_world)"
    by (simp only: stopped k k2 option.case prod.case c)
  with resumed
  have whole: "run ?m demo (Some 2) (?s, demo_world) = Some (Inr ?s3, (?s3, demo_world\<lparr>heap := [2]\<rparr>))"
    by (simp only:)
  let ?mb = "(Surveyor_methods demo)
              \<lparr>tick_path := (\<lambda>p w. (Inr [p + 1], if p = 11 then stop_analyses w else w))\<rparr>"
  let ?b0 = "demo_surveyor 10 [10] []"
  let ?b1 = "(demo_surveyor 10 [11] [])\<lparr>current_tick := 1\<rparr>"
  let ?b2 = "(demo_surveyor 10 [12] [])\<lparr>current_tick := 2\<rparr>"
  let ?b3 = "(demo_surveyor 10 [13] [])\<lparr>current_tick := 3\<rparr>"
  have lb: "loop_rounds ?mb demo (Suc 0) None (?b0, demo_world) = Some (None, (?b1, demo_world))"
    by (simp add: loop_round_def demo_eval untrim_def stop_analyses_def)
  have db: "is_done ?mb ?b1 demo_world = (Inr False, demo_world)"
    by (simp add: demo_eval)
  have bb: "case (None :: int option) of None \<Rightarrow> True | Some k \<Rightarrow> k > 0"
    by simp
  have tb: "tick ?mb demo (?b1, demo_world) = (Inr ?b2, (?b2, ?w))"
    by (simp add: demo_eval stop_analyses_def)
  have trb: "trim ?mb (?b2, ?w) = (Inr (), (?b2, ?w))"
    by (simp add: demo_eval stop_analyses_def)
  have ub: "untrim ?b2 = ?b2"
    by (simp add: untrim_cases demo_surveyor_def)
  note stopped_b =
    stop_and_resume [OF lb db bb tb trb, THEN conjunct1, rule_format, OF st, unfolded ub]
  have resumed_b: "run ?mb demo (Some 1) (?b2, demo_world) = Some (Inr ?b3, (?b3, demo_world))"
    apply (subst run.simps)
    apply (simp add: demo_eval untrim_def stop_analyses_def)
    apply (subst run.simps)
    apply (simp add: demo_eval untrim_def stop_analyses_def)
    done
  show ?thesis
    by (intro conjI stopped c resumed whole stopped_b resumed_b)
qed

end
